theory Spec2Isabelle
  imports Complex_Main "HOL-Library.Sublist"
begin

section \<open>Data model\<close>

text \<open>
  Exceptions of the Python source are values: every \<open>raise\<close>, failed \<open>assert\<close> and
  failing built-in operation that a modelled function can reach is a constructor here.
\<close>

datatype py_error =
    ValueError
  | IndexError
  | RuntimeError
  | AttributeError
  | AssertionError
  | NotImplementedError
  | UnboundLocalError
  | TypeError

text \<open>
  The two instrument classes of \<open>webbpsf_ext_core.py\<close> (\<open>NIRCam_ext\<close>, \<open>MIRI_ext\<close>)
  share their attributes; the class is the field \<open>name\<close>. Attributes that the source
  keeps as \<open>None\<close> until the user sets them are options (\<open>_npsf\<close>, \<open>_ndeg\<close>,
  \<open>_quick\<close>, \<open>_oversample\<close>, \<open>_use_fov_pix_plus1\<close>); \<open>rotation\<close> is
  \<open>_rotation\<close>. The results of \<open>get_bar_offset()\<close> and of
  \<open>get_opd_info()['opd_str']\<close> are the fields \<open>bar_offset\<close> and \<open>opd_str\<close>.
  Wavelengths and other Python floats are exact rationals.
\<close>

datatype inst_name = NIRCam | MIRI

datatype opt_value = OptNone | OptNum rat | OptStr string

record instrument =
  name :: inst_name
  filter_name :: string
  pupil_mask :: "string option"
  image_mask :: "string option"
  nrc_module :: string
  channel :: string
  fov_pix :: int
  oversample_set :: "int option"
  use_fov_pix_plus1_set :: "bool option"
  quick_set :: "bool option"
  npsf_set :: "rat option"
  ndeg_set :: "int option"
  use_legendre :: bool
  include_si_wfe :: bool
  include_distortions :: bool
  bandpass_wave_min :: rat
  bandpass_wave_max :: rat
  options :: "string \<Rightarrow> opt_value option"
  bar_offset :: "rat option"
  opd_str :: string
  rotation :: "rat option"

section \<open>Number of monochromatic samples and degree of the fit\<close>








section \<open>The batch of monochromatic images\<close>

type_synonym 'a image = "'a list list"

text \<open>\<open>hdu.data.sum()\<close>: the sum of all pixels of an image.\<close>

definition data_sum :: "('a::linordered_field) image \<Rightarrow> 'a" where
  "data_sum im = sum_list (concat im)"

text \<open>
  The normalisation loop of \<open>_gen_psf_coeff\<close>:
  \<open>data_sum = hdu.data.sum(); if data_sum>1: hdu.data /= data_sum\<close>.
\<close>

definition clamp_sum :: "('a::linordered_field) image \<Rightarrow> 'a image" where
  "clamp_sum im = (let s = data_sum im in if s > 1 then map (map (\<lambda>v. v / s)) im else im)"

text \<open>
  \<open>_wrap_coeff_for_mp\<close>. The engine call \<open>inst.calc_psf(monochromatic=w*1e-6, ...)\<close> with
  the choice of the HDU is the parameter \<open>calc_psf\<close>; \<open>None\<close> is the engine raising. The
  worker catches the exception, logs the wavelength (\<open>_log.error('Caught exception in
  worker thread (w = {})')\<close>) and returns \<open>None\<close>. The first component is what the call
  adds to the error log.
\<close>

definition wrap_coeff_for_mp :: "('w \<Rightarrow> 'a image option) \<Rightarrow> 'w \<Rightarrow> 'w list \<times> 'a image option" where
  "wrap_coeff_for_mp calc_psf w =
     (case calc_psf w of None \<Rightarrow> ([w], None) | Some hdu \<Rightarrow> ([], Some hdu))"

text \<open>
  The single-process loop: it raises RuntimeError at the first \<open>None\<close> and runs no later
  wavelength.
\<close>

fun single_process :: "('w \<Rightarrow> 'a image option) \<Rightarrow> 'w list \<Rightarrow> 'w list \<times> (py_error + 'a image option list)" where
  "single_process calc_psf [] = ([], Inr [])"
| "single_process calc_psf (w # ws) =
     (case wrap_coeff_for_mp calc_psf w of
        (lg, None) \<Rightarrow> (lg, Inl RuntimeError)
      | (lg, Some hdu) \<Rightarrow>
          (case single_process calc_psf ws of
             (lg', Inl e) \<Rightarrow> (lg @ lg', Inl e)
           | (lg', Inr hs) \<Rightarrow> (lg @ lg', Inr (Some hdu # hs))))"

text \<open>
  The pool: every wavelength is run and the results are collected in the order of the
  input; only \<open>hdu_arr[0]\<close> is tested for \<open>None\<close> (an empty batch raises IndexError
  there).
\<close>

definition multi_process :: "('w \<Rightarrow> 'a image option) \<Rightarrow> 'w list \<Rightarrow> 'w list \<times> (py_error + 'a image option list)" where
  "multi_process calc_psf waves =
     (let res = map (wrap_coeff_for_mp calc_psf) waves;
          lg = concat (map fst res);
          hdu_arr = map snd res
      in case hdu_arr of
           [] \<Rightarrow> (lg, Inl IndexError)
         | None # _ \<Rightarrow> (lg, Inl RuntimeError)
         | Some _ # _ \<Rightarrow> (lg, Inr hdu_arr))"

text \<open>
  The loop \<open>for hdu in hdu_arr: data_sum = hdu.data.sum() ...\<close>: reading \<open>.data\<close> of a
  \<open>None\<close> entry raises AttributeError.
\<close>

fun clamp_all :: "('a::linordered_field) image option list \<Rightarrow> py_error + 'a image list" where
  "clamp_all [] = Inr []"
| "clamp_all (None # hs) = Inl AttributeError"
| "clamp_all (Some hdu # hs) =
     (case clamp_all hs of Inl e \<Rightarrow> Inl e | Inr ims \<Rightarrow> Inr (clamp_sum hdu # ims))"

text \<open>
  The build path of \<open>_gen_psf_coeff\<close> from the worker arguments on: the batch, the
  normalisation and the fit. \<open>jl_poly_fit\<close> (module \<open>maths\<close>) is the parameter
  \<open>fit\<close>; it is applied only when nothing has raised before it. The result pairs the
  error log with the outcome.
\<close>

definition gen_psf_coeff_batch ::
  "('w \<Rightarrow> ('a::linordered_field) image option) \<Rightarrow> ('w list \<Rightarrow> 'a image list \<Rightarrow> 'cf) \<Rightarrow> int \<Rightarrow> 'w list
     \<Rightarrow> 'w list \<times> (py_error + 'cf)" where
  "gen_psf_coeff_batch calc_psf fit nproc waves =
     (case (if nproc > 1 then multi_process calc_psf waves else single_process calc_psf waves) of
        (lg, Inl e) \<Rightarrow> (lg, Inl e)
      | (lg, Inr hdu_arr) \<Rightarrow>
          (case clamp_all hdu_arr of
             Inl e \<Rightarrow> (lg, Inl e)
           | Inr images \<Rightarrow> (lg, Inr (fit waves images))))"

section \<open>Arrays and \<open>pad_or_cut_to_size\<close>\<close>

text \<open>
  A numpy array is its shape and its nested data, so that an array with no rows still
  has a number of columns. \<open>Arr0\<close> is a scalar (the \<open>0\<close> that the coefficient
  modifiers return when they change nothing).
\<close>

datatype 'a ndarray =
    Arr0 'a
  | Arr1 nat "'a list"
  | Arr2 nat nat "'a list list"
  | Arr3 nat nat nat "'a list list list"
  | Arr4 nat nat nat nat "'a list list list list"

text \<open>\<open>array.shape\<close>.\<close>

fun shape :: "'a ndarray \<Rightarrow> nat list" where
  "shape (Arr0 v) = []"
| "shape (Arr1 n d) = [n]"
| "shape (Arr2 ny nx d) = [ny, nx]"
| "shape (Arr3 nz ny nx d) = [nz, ny, nx]"
| "shape (Arr4 nf nz ny nx d) = [nf, nz, ny, nx]"

text \<open>The nested data has the rows and columns the shape announces.\<close>

definition is_shape2 :: "nat \<Rightarrow> nat \<Rightarrow> 'a list list \<Rightarrow> bool" where
  "is_shape2 ny nx d = (length d = ny \<and> list_all (\<lambda>r. length r = nx) d)"

definition is_shape3 :: "nat \<Rightarrow> nat \<Rightarrow> nat \<Rightarrow> 'a list list list \<Rightarrow> bool" where
  "is_shape3 nz ny nx d = (length d = nz \<and> list_all (is_shape2 ny nx) d)"


text \<open>
  The argument \<open>new_shape\<close> of \<open>pad_or_cut_to_size\<close> is a number or a sequence, and
  \<open>offset_vals\<close> is \<open>None\<close>, a number or a sequence. Requested sizes are Python
  integers (a float size is not modelled).
\<close>

datatype shape_arg = ShapeInt int | ShapeSeq "int list"

datatype off_arg = OffNum rat | OffSeq "rat list"

text \<open>Python's \<open>int(q)\<close> on a float: truncation towards zero.\<close>

definition py_int :: "rat \<Rightarrow> int" where
  "py_int q = (if q \<ge> 0 then \<lfloor>q\<rfloor> else \<lceil>q\<rceil>)"

text \<open>
  The reading of \<open>new_shape\<close> for a 1-D input: a number gives \<open>(1, int(n+0.5))\<close>,
  a sequence of fewer than two entries gives \<open>(1, new_shape[0])\<close> (IndexError when it is
  empty), otherwise \<open>ny_new, nx_new = new_shape\<close> (ValueError when it has more than two
  entries).
\<close>

definition new_shape_1d :: "shape_arg \<Rightarrow> py_error + int \<times> int" where
  "new_shape_1d s =
     (case s of
        ShapeInt n \<Rightarrow> Inr (1, py_int (of_int n + 1 / 2))
      | ShapeSeq [] \<Rightarrow> Inl IndexError
      | ShapeSeq [a] \<Rightarrow> Inr (1, a)
      | ShapeSeq [a, b] \<Rightarrow> Inr (a, b)
      | ShapeSeq _ \<Rightarrow> Inl ValueError)"

text \<open>The same for a 2-D or 3-D input, where one number gives a square.\<close>

definition new_shape_2d :: "shape_arg \<Rightarrow> py_error + int \<times> int" where
  "new_shape_2d s =
     (case s of
        ShapeInt n \<Rightarrow> Inr (py_int (of_int n + 1 / 2), py_int (of_int n + 1 / 2))
      | ShapeSeq [] \<Rightarrow> Inl IndexError
      | ShapeSeq [a] \<Rightarrow> Inr (a, a)
      | ShapeSeq [a, b] \<Rightarrow> Inr (a, b)
      | ShapeSeq _ \<Rightarrow> Inl ValueError)"

text \<open>
  The reading of \<open>offset_vals\<close>, as \<open>(ny_off, nx_off)\<close>. For a 2-D or 3-D input
  \<open>len(offset_vals)\<close> of a number raises TypeError.
\<close>

definition offsets_1d :: "off_arg option \<Rightarrow> py_error + rat \<times> rat" where
  "offsets_1d off =
     (case off of
        None \<Rightarrow> Inr (0, 0)
      | Some (OffNum v) \<Rightarrow> Inr (0, v)
      | Some (OffSeq []) \<Rightarrow> Inl IndexError
      | Some (OffSeq [v]) \<Rightarrow> Inr (0, v)
      | Some (OffSeq _) \<Rightarrow> Inl ValueError)"

definition offsets_2d :: "off_arg option \<Rightarrow> py_error + rat \<times> rat" where
  "offsets_2d off =
     (case off of
        None \<Rightarrow> Inr (0, 0)
      | Some (OffNum v) \<Rightarrow> Inl TypeError
      | Some (OffSeq [a, b]) \<Rightarrow> Inr (a, b)
      | Some (OffSeq _) \<Rightarrow> Inl ValueError)"

text \<open>
  The bounds \<open>n0, n1\<close> (and \<open>m0, m1\<close>) of the centred window, computed as the source
  does: a float division by two, then \<open>int(n0+0.5)\<close> and \<open>int(n1+0.5)\<close>.
\<close>

definition centre_bounds :: "nat \<Rightarrow> nat \<Rightarrow> nat \<times> nat" where
  "centre_bounds nx nx_new =
     (let (n0, n1) =
            (if nx_new > nx then
               (let n0 = (of_nat nx_new - of_nat nx) / 2 in (n0, n0 + of_nat nx))
             else if nx > nx_new then
               (let n0 = (of_nat nx - of_nat nx_new) / 2 in (n0, n0 + of_nat nx_new))
             else (0, of_nat nx))
      in (nat (py_int (n0 + 1 / 2)), nat (py_int (n1 + 1 / 2))))"

text \<open>
  \<open>fshift\<close> on a 2-D image returns its input when both shifts are within \<open>1e-5\<close> of
  zero (\<open>np.isclose(delx, 0, atol=1e-5)\<close>). The integer roll, the interpolation and the
  test for an all-NaN result of a real shift are the parameter \<open>interp\<close>.
\<close>

definition fshift ::
  "('a image \<Rightarrow> rat \<Rightarrow> rat \<Rightarrow> py_error + 'a image) \<Rightarrow> 'a image \<Rightarrow> rat \<Rightarrow> rat \<Rightarrow> py_error + 'a image" where
  "fshift interp inarr delx dely =
     (if \<bar>delx\<bar> \<le> 1 / 100000 \<and> \<bar>dely\<bar> \<le> 1 / 100000 then Inr inarr
      else interp inarr delx dely)"

text \<open>
  The loops \<open>for i, im in enumerate(output): output[i] = shift_func(im, ...)\<close>: the result
  is stored in place, which raises ValueError unless it has the shape of the plane it
  replaces (broadcasting of a smaller result is not modelled).
\<close>

fun shift_planes ::
  "('a image \<Rightarrow> rat \<Rightarrow> rat \<Rightarrow> py_error + 'a image) \<Rightarrow> rat \<Rightarrow> rat \<Rightarrow> nat \<Rightarrow> nat \<Rightarrow> 'a image list
     \<Rightarrow> py_error + 'a image list" where
  "shift_planes shift_func dx dy ny nx [] = Inr []"
| "shift_planes shift_func dx dy ny nx (im # ims) =
     (case shift_func im dx dy of
        Inl e \<Rightarrow> Inl e
      | Inr r \<Rightarrow>
          (if is_shape2 ny nx r then
             (case shift_planes shift_func dx dy ny nx ims of
                Inl e \<Rightarrow> Inl e
              | Inr rs \<Rightarrow> Inr (r # rs))
           else Inl ValueError))"

text \<open>\<open>array[:, m0:m1, n0:n1]\<close> for \<open>0 \<le> m0 \<le> m1\<close> and \<open>0 \<le> n0 \<le> n1\<close>.\<close>

definition slice3 :: "nat \<Rightarrow> nat \<Rightarrow> nat \<Rightarrow> nat \<Rightarrow> 'a image list \<Rightarrow> 'a image list" where
  "slice3 m0 m1 n0 n1 arr =
     map (\<lambda>im. map (\<lambda>row. take (n1 - n0) (drop n0 row)) (take (m1 - m0) (drop m0 im))) arr"

text \<open>
  \<open>output[:, m0:m1, n0:n1] = src\<close>: the source must have the shape of the window
  (ValueError otherwise; broadcasting is not modelled), and replaces it.
\<close>

definition assign3 ::
  "nat \<Rightarrow> nat \<Rightarrow> nat \<Rightarrow> nat \<Rightarrow> nat \<times> nat \<times> nat \<Rightarrow> 'a image list \<Rightarrow> nat \<times> nat \<times> nat \<Rightarrow> 'a image list
     \<Rightarrow> py_error + 'a image list" where
  "assign3 m0 m1 n0 n1 tshape out sshape src =
     (case tshape of (nz, ny, nx) \<Rightarrow>
        if sshape = (nz, min m1 ny - min m0 ny, min n1 nx - min n0 nx) then
          Inr (map2 (\<lambda>oim sim.
                 take m0 oim
                 @ map2 (\<lambda>orow srow. take n0 orow @ srow @ drop n1 orow)
                     (take (m1 - m0) (drop m0 oim)) sim
                 @ drop m1 oim) out src)
        else Inl ValueError)"

text \<open>
  The body of \<open>pad_or_cut_to_size\<close> after the arguments are read: the output filled with
  \<open>fill_val\<close>, the window, and the four cases of the source in their order.
\<close>

definition resize_core ::
  "('a image \<Rightarrow> rat \<Rightarrow> rat \<Rightarrow> py_error + 'a image) \<Rightarrow> nat \<Rightarrow> nat \<Rightarrow> nat \<Rightarrow> ('a::monoid_add) image list
     \<Rightarrow> nat \<Rightarrow> nat \<Rightarrow> 'a \<Rightarrow> rat \<Rightarrow> rat \<Rightarrow> py_error + 'a image list" where
  "resize_core shift_func nz ny nx array ny_new nx_new fill_val ny_off nx_off =
     (let output = replicate nz (replicate ny_new (replicate nx_new
                     (if fill_val \<noteq> 0 then 0 + fill_val else 0)));
          (n0, n1) = centre_bounds nx nx_new;
          (m0, m1) = centre_bounds ny ny_new
      in
        if nx_new \<ge> nx \<and> ny_new \<ge> ny then
          (case assign3 m0 m1 n0 n1 (nz, ny_new, nx_new) output (nz, ny, nx) array of
             Inl e \<Rightarrow> Inl e
           | Inr out \<Rightarrow> shift_planes shift_func nx_off ny_off ny_new nx_new out)
        else if nx_new \<le> nx \<and> ny_new \<le> ny then
          (if nx_off \<noteq> 0 \<or> ny_off \<noteq> 0 then
             (case shift_planes shift_func nx_off ny_off ny nx array of
                Inl e \<Rightarrow> Inl e
              | Inr array_temp \<Rightarrow> Inr (slice3 m0 m1 n0 n1 array_temp))
           else Inr (slice3 m0 m1 n0 n1 array))
        else if nx_new \<le> nx \<and> ny_new \<ge> ny then
          (case (if nx_off \<noteq> 0 then shift_planes shift_func nx_off 0 ny nx array else Inr array) of
             Inl e \<Rightarrow> Inl e
           | Inr array_temp \<Rightarrow>
               (case assign3 m0 m1 0 nx_new (nz, ny_new, nx_new) output
                       (nz, ny, min n1 nx - min n0 nx) (slice3 0 ny n0 n1 array_temp) of
                  Inl e \<Rightarrow> Inl e
                | Inr out \<Rightarrow> shift_planes shift_func 0 ny_off ny_new nx_new out))
        else
          (case (if ny_off \<noteq> 0 then shift_planes shift_func 0 ny_off ny nx array else Inr array) of
             Inl e \<Rightarrow> Inl e
           | Inr array_temp \<Rightarrow>
               (case assign3 0 ny_new n0 n1 (nz, ny_new, nx_new) output
                       (nz, min m1 ny - min m0 ny, nx) (slice3 m0 m1 0 nx array_temp) of
                  Inl e \<Rightarrow> Inl e
                | Inr out \<Rightarrow> shift_planes shift_func nx_off 0 ny_new nx_new out)))"

text \<open>
  \<open>pad_or_cut_to_size(array, new_shape, fill_val, offset_vals, shift_func)\<close>. The input
  is first reshaped to three dimensions; when the shape of the input equals the requested
  shape and no offset is given, that reshaped array is what is returned.
\<close>

definition pad_or_cut_to_size ::
  "('a image \<Rightarrow> rat \<Rightarrow> rat \<Rightarrow> py_error + 'a image) \<Rightarrow> ('a::monoid_add) ndarray \<Rightarrow> shape_arg \<Rightarrow> 'a
     \<Rightarrow> off_arg option \<Rightarrow> py_error + 'a ndarray" where
  "pad_or_cut_to_size shift_func array new_shape fill_val offset_vals =
     (case (case array of
              Arr1 n d \<Rightarrow> Inr (1 :: nat, 1, 1, n, [[d]])
            | Arr2 ny nx d \<Rightarrow> Inr (2, 1, ny, nx, [d])
            | Arr3 nz ny nx d \<Rightarrow> Inr (3, nz, ny, nx, d)
            | _ \<Rightarrow> Inl ValueError) of
        Inl e \<Rightarrow> Inl e
      | Inr (ndim, nz, ny, nx, arr) \<Rightarrow>
          (case (if ndim = 1 then new_shape_1d new_shape else new_shape_2d new_shape) of
             Inl e \<Rightarrow> Inl e
           | Inr (ny_i, nx_i) \<Rightarrow>
               if ny_i < 0 \<or> nx_i < 0 then Inl ValueError
               else
                 (let ny_new = nat ny_i; nx_new = nat nx_i in
                  if shape array = [ny_new, nx_new] \<and> offset_vals = None then Inr (Arr3 nz ny nx arr)
                  else
                    (case (if ndim = 1 then offsets_1d offset_vals else offsets_2d offset_vals) of
                       Inl e \<Rightarrow> Inl e
                     | Inr (ny_off, nx_off) \<Rightarrow>
                         (case resize_core shift_func nz ny nx arr ny_new nx_new fill_val ny_off nx_off of
                            Inl e \<Rightarrow> Inl e
                          | Inr output \<Rightarrow>
                              if ndim = 1 \<and> ny_new = 1 then Inr (Arr1 (nz * ny_new * nx_new) (concat (concat output)))
                              else if ndim = 2 then
                                (case output of
                                   [] \<Rightarrow> Inl IndexError
                                 | im # _ \<Rightarrow> Inr (Arr2 ny_new nx_new im))
                              else Inr (Arr3 nz ny_new nx_new output))))))"

text \<open>
  Centred zero-padding or cropping, as the specification words it: a list is padded on both
  sides, the extra element of an odd difference going in front, or the centred window of
  the requested length is taken.
\<close>

definition centre1 :: "nat \<Rightarrow> 'a \<Rightarrow> 'a list \<Rightarrow> 'a list" where
  "centre1 n_new pad xs =
     (let n = length xs in
      if n_new \<ge> n then
        replicate ((n_new - n + 1) div 2) pad @ xs
        @ replicate (n_new - n - (n_new - n + 1) div 2) pad
      else take n_new (drop ((n - n_new + 1) div 2) xs))"

text \<open>The same on an image: columns first, then rows.\<close>

definition centre_resize :: "nat \<Rightarrow> nat \<Rightarrow> 'a \<Rightarrow> 'a image \<Rightarrow> 'a image" where
  "centre_resize ny_new nx_new pad im =
     centre1 ny_new (replicate nx_new pad) (map (centre1 nx_new pad) im)"













section \<open>\<open>_calc_psf_from_coeff\<close>: the order of the steps\<close>

text \<open>
  The steps of a call that matter for their order are recorded in a trace: the call of
  \<open>_coeff_mod_wfe_field\<close>, of \<open>_coeff_mod_wfe_mask\<close>, of \<open>_coeff_mod_wfe_drift\<close>, and each
  call of \<open>gen_image_from_coeff\<close>.
\<close>

datatype event = EvFieldMod | EvMaskMod | EvDriftMod | EvSynth

text \<open>What a call returns: \<open>None\<close>, one image, or one image for each field point.\<close>

datatype 'o psf_result = NoResult | OnePSF 'o | ManyPSF "'o list"

text \<open>
  The coefficient modifiers, the synthesis (module \<open>psfs\<close>) and the array arithmetic on
  coefficients are parameters; each of the functions may raise.
\<close>

record ('c, 'p, 'o) psf_ops =
  op_wfe_field :: "'p list option \<Rightarrow> py_error + 'c \<times> nat option"
  op_wfe_mask :: "'p list option \<Rightarrow> py_error + 'c \<times> nat option"
  op_wfe_drift :: "rat \<Rightarrow> 'p list option \<Rightarrow> py_error + 'c"
  gen_image_from_coeff :: "'c \<Rightarrow> py_error + 'o"
  coeff_add :: "'c \<Rightarrow> 'c \<Rightarrow> 'c"
  coeff_zero :: 'c
  coeff_index :: "'c \<Rightarrow> nat \<Rightarrow> 'c"

text \<open>The loop \<open>for ii in trange(nfield)\<close> over \<open>psf_coeff[ii]\<close>.\<close>

fun synth_fields ::
  "('c, 'p, 'o) psf_ops \<Rightarrow> 'c \<Rightarrow> nat list \<Rightarrow> event list \<times> (py_error + 'o list)" where
  "synth_fields ops cf [] = ([], Inr [])"
| "synth_fields ops cf (ii # is) =
     (case gen_image_from_coeff ops (coeff_index ops cf ii) of
        Inl e \<Rightarrow> ([EvSynth], Inl e)
      | Inr psf \<Rightarrow>
          (case synth_fields ops cf is of
             (tr, Inl e) \<Rightarrow> (EvSynth # tr, Inl e)
           | (tr, Inr psfs) \<Rightarrow> (EvSynth # tr, Inr (psf # psfs))))"

text \<open>
  The function from \<open>psf_coeff_mod = 0\<close> on, for coefficients that exist: the field
  correction without an image mask, the mask correction with one, then
  \<open>assert wfe_drift>=0\<close>, the drift correction for a positive drift, the baseline, and the
  synthesis.
\<close>

definition calc_psf_body ::
  "('c, 'p, 'o) psf_ops \<Rightarrow> 'c \<Rightarrow> bool \<Rightarrow> rat option \<Rightarrow> 'p list option
     \<Rightarrow> event list \<times> (py_error + 'o psf_result)" where
  "calc_psf_body ops psf_coeff has_image_mask wfe_drift_arg coord_vals =
     (let wfe_drift = (case wfe_drift_arg of None \<Rightarrow> 0 | Some w \<Rightarrow> w);
          (tr1, r1) = (if \<not> has_image_mask then ([EvFieldMod], op_wfe_field ops coord_vals)
                       else ([], Inr (coeff_zero ops, None)))
      in case r1 of
           Inl e \<Rightarrow> (tr1, Inl e)
         | Inr (cf1, nfield1) \<Rightarrow>
             (let mod1 = (if \<not> has_image_mask then coeff_add ops (coeff_zero ops) cf1 else coeff_zero ops);
                  nfield = (case nfield1 of None \<Rightarrow> 1 | Some n \<Rightarrow> n);
                  (tr2, r2) = (if has_image_mask then ([EvMaskMod], op_wfe_mask ops coord_vals)
                               else ([], Inr (coeff_zero ops, None)))
              in case r2 of
                   Inl e \<Rightarrow> (tr1 @ tr2, Inl e)
                 | Inr (cf2, nfield_mask) \<Rightarrow>
                     (let mod2 = (if has_image_mask then coeff_add ops mod1 cf2 else mod1);
                          nfield' = (case nfield_mask of None \<Rightarrow> nfield | Some n \<Rightarrow> n)
                      in if \<not> (wfe_drift \<ge> 0) then (tr1 @ tr2, Inl AssertionError)
                         else
                           (let (tr3, r3) =
                                  (if wfe_drift > 0 then
                                     ([EvDriftMod],
                                      (case op_wfe_drift ops wfe_drift coord_vals of
                                         Inl e \<Rightarrow> Inl e
                                       | Inr cf3 \<Rightarrow> Inr (coeff_add ops mod2 cf3)))
                                   else ([], Inr mod2))
                            in case r3 of
                                 Inl e \<Rightarrow> (tr1 @ tr2 @ tr3, Inl e)
                               | Inr mod3 \<Rightarrow>
                                   (let cf = coeff_add ops mod3 psf_coeff in
                                    if nfield' > 1 then
                                      (case synth_fields ops cf [0..<nfield'] of
                                         (tr4, Inl e) \<Rightarrow> (tr1 @ tr2 @ tr3 @ tr4, Inl e)
                                       | (tr4, Inr psfs) \<Rightarrow> (tr1 @ tr2 @ tr3 @ tr4, Inr (ManyPSF psfs)))
                                    else
                                      (case gen_image_from_coeff ops cf of
                                         Inl e \<Rightarrow> (tr1 @ tr2 @ tr3 @ [EvSynth], Inl e)
                                       | Inr psf \<Rightarrow> (tr1 @ tr2 @ tr3 @ [EvSynth], Inr (OnePSF psf))))))))"

text \<open>
  The loop of the \<open>break_iter\<close> branch: one call of the function for each field point,
  each with a single coordinate; the first exception ends the loop.
\<close>

fun calc_psf_points ::
  "('c, 'p, 'o) psf_ops \<Rightarrow> 'c \<Rightarrow> bool \<Rightarrow> rat option \<Rightarrow> 'p list
     \<Rightarrow> event list \<times> (py_error + 'o psf_result list)" where
  "calc_psf_points ops psf_coeff has_image_mask wfe_drift [] = ([], Inr [])"
| "calc_psf_points ops psf_coeff has_image_mask wfe_drift (p # ps) =
     (case calc_psf_body ops psf_coeff has_image_mask wfe_drift (Some [p]) of
        (tr, Inl e) \<Rightarrow> (tr, Inl e)
      | (tr, Inr res) \<Rightarrow>
          (case calc_psf_points ops psf_coeff has_image_mask wfe_drift ps of
             (tr', Inl e) \<Rightarrow> (tr @ tr', Inl e)
           | (tr', Inr rs) \<Rightarrow> (tr @ tr', Inr (res # rs))))"

text \<open>The images of a result, as the loop appends them.\<close>

fun psf_of :: "'o psf_result \<Rightarrow> 'o list" where
  "psf_of NoResult = []"
| "psf_of (OnePSF psf) = [psf]"
| "psf_of (ManyPSF psfs) = psfs"

text \<open>
  \<open>_calc_psf_from_coeff\<close>: without coefficients it warns and returns \<open>None\<close>; several
  field points with \<open>break_iter\<close> are computed one call at a time.
\<close>

definition calc_psf_from_coeff ::
  "('c, 'p, 'o) psf_ops \<Rightarrow> 'c option \<Rightarrow> bool \<Rightarrow> rat option \<Rightarrow> 'p list option \<Rightarrow> bool
     \<Rightarrow> event list \<times> (py_error + 'o psf_result)" where
  "calc_psf_from_coeff ops psf_coeff_attr has_image_mask wfe_drift coord_vals break_iter =
     (case psf_coeff_attr of
        None \<Rightarrow> ([], Inr NoResult)
      | Some psf_coeff \<Rightarrow>
          (case coord_vals of
             None \<Rightarrow> calc_psf_body ops psf_coeff has_image_mask wfe_drift None
           | Some pts \<Rightarrow>
               if (if length pts \<le> 1 then False else break_iter) then
                 (case calc_psf_points ops psf_coeff has_image_mask wfe_drift pts of
                    (tr, Inl e) \<Rightarrow> (tr, Inl e)
                  | (tr, Inr rs) \<Rightarrow> (tr, Inr (ManyPSF (concat (map psf_of rs)))))
               else calc_psf_body ops psf_coeff has_image_mask wfe_drift (Some pts)))"

section \<open>\<open>_coeff_mod_wfe_drift\<close>: the blend of the drift models\<close>






section \<open>Name of the coefficient file: \<open>_gen_save_name\<close>\<close>

text \<open>
  The properties \<open>is_lyot\<close> and \<open>is_coron\<close>. \<open>NIRCam_ext\<close> asks for a Lyot stop in
  the pupil wheel and a mask whose name contains \<open>MASK\<close>; \<open>MIRI_ext\<close> looks at the pupil
  only.
\<close>

definition is_lyot :: "instrument \<Rightarrow> bool" where
  "is_lyot c = (case pupil_mask c of None \<Rightarrow> False | Some pupil \<Rightarrow> sublist ''LYOT'' pupil)"

definition is_coron :: "instrument \<Rightarrow> bool" where
  "is_coron c =
     (case name c of
        NIRCam \<Rightarrow>
          is_lyot c \<and> (case image_mask c of None \<Rightarrow> False | Some m \<Rightarrow> sublist ''MASK'' m)
      | MIRI \<Rightarrow>
          (case pupil_mask c of
             None \<Rightarrow> False
           | Some pupil \<Rightarrow> sublist ''LYOT'' pupil \<or> sublist ''FQPM'' pupil))"
























section \<open>Residual models: \<open>_gen_wfedrift_coeff\<close> and \<open>_gen_wfemask_coeff\<close>\<close>

text \<open>
  A coefficient cube is a stack of \<open>ncf\<close> images of \<open>npix\<close> by \<open>npix\<close> pixels (the
  array \<open>cf\<close> returned by \<open>gen_psf_coeff\<close>). \<open>cube_sub\<close> is the element-wise
  difference of two cubes of the same shape, \<open>zero_cube\<close> is \<open>np.zeros\<close>.
  \<open>flip_y\<close> is the slice \<open>[..., ::-1, :]\<close> (the rows of every image reversed) and
  \<open>flip_x\<close> is \<open>[..., ::-1]\<close> (every row reversed).
\<close>

type_synonym 'a cube = "'a image list"

definition cube_sub :: "('a::ab_group_add) cube \<Rightarrow> 'a cube \<Rightarrow> 'a cube" where
  "cube_sub a b = map2 (map2 (map2 (-))) a b"

definition zero_cube :: "nat \<Rightarrow> nat \<Rightarrow> ('a::ab_group_add) cube" where
  "zero_cube ncf npix = replicate ncf (replicate npix (replicate npix 0))"

definition flip_y :: "'a cube \<Rightarrow> 'a cube" where
  "flip_y cf = map rev cf"

definition flip_x :: "'a cube \<Rightarrow> 'a cube" where
  "flip_x cf = map (map rev) cf"

text \<open>
  \<open>rotate_offset(data, angle, reshape=False, ...)\<close> of \<open>image_manip.py\<close>, called
  without a centre: it returns its input when the angle is 0 and otherwise hands the stack
  to \<open>scipy.ndimage.rotate\<close>, which rotates every plane; that function is the parameter
  \<open>nd_rotate\<close>.
\<close>

definition rotate_offset :: "(rat \<Rightarrow> 'a image \<Rightarrow> 'a image) \<Rightarrow> rat \<Rightarrow> 'a cube \<Rightarrow> 'a cube" where
  "rotate_offset nd_rotate angle data = (if angle = 0 then data else map (nd_rotate angle) data)"

text \<open>
  The cubes of a pass are stored in one array (\<open>np.asarray(cf_wfe)\<close>, or rows of the
  preallocated \<open>cf_all\<close>), which needs every cube to have the same shape; a cube of
  another shape is a \<open>ValueError\<close> here (numpy would broadcast some of them, a case that
  is not modelled).
\<close>

definition checked_cube :: "nat \<Rightarrow> nat \<Rightarrow> py_error + 'a cube \<Rightarrow> py_error + 'a cube" where
  "checked_cube ncf npix r =
     (case r of
        Inl e \<Rightarrow> Inl e
      | Inr cf \<Rightarrow> if is_shape3 ncf npix npix cf then Inr cf else Inl ValueError)"


text \<open>
  \<open>_gen_wfemask_coeff\<close> on the path that computes (a coronagraphic configuration, nothing
  loaded from disk, \<open>return_raw\<close> off). The mask offsets are fixed in the source for every
  instrument, mask family and grid size; decimal literals are exact rationals here.
  \<open>mask_offsets\<close> returns \<open>x_offsets\<close>, \<open>y_offsets\<close>, the radius \<open>iwa\<close> and whether the
  bar form of \<open>ind_sgd\<close> is used in the first pass.
\<close>

definition miri_xy_offsets :: "string \<Rightarrow> bool \<Rightarrow> py_error + rat list" where
  "miri_xy_offsets m large_grid =
     (if sublist ''FQPM'' m then
        Inr ((map (\<lambda>v. - 1 * v)
               (if large_grid then [0, 5 / 1000, 1 / 100, 8 / 100, 10 / 100, 2 / 10, 5 / 10, 1, 5, 11]
                else [0, 1 / 100, 10 / 100, 1, 10]))[0 := 0])
      else if sublist ''LYOT'' m then
        Inr ((map (\<lambda>v. - 1 * v)
               (if large_grid then [0, 1 / 100, 1 / 10, 36 / 100, 5 / 10, 1, 21 / 10, 5, 11]
                else [0, 1 / 100, 10 / 100, 1, 10]))[0 := 0])
      else Inl NotImplementedError)"

definition round_xy_offsets :: "string \<Rightarrow> bool \<Rightarrow> rat list" where
  "round_xy_offsets m large_grid =
     (if large_grid then
        (let xy_inner = [15 / 1000, 2 / 100, 5 / 100, 1 / 10];
             xy_mid0 = [6 / 10, 12 / 10, 25 / 10];
             xy_mid = (if sublist ''210R'' m then map (\<lambda>v. v * (488 / 1000)) xy_mid0
                       else if sublist ''335R'' m then map (\<lambda>v. v * (779 / 1000)) xy_mid0
                       else xy_mid0);
             xy_outer = [8];
             xy_pos = xy_inner @ xy_mid @ xy_outer;
             xy_neg = map (\<lambda>v. - 1 * v) (rev xy_pos)
         in xy_neg @ [0] @ xy_pos)
      else [- 8, - (15 / 10), - (1 / 10), - (1 / 100), 0])"

definition bar_offsets :: "string \<Rightarrow> bool \<Rightarrow> rat list \<times> rat list" where
  "bar_offsets m large_grid =
     (if large_grid then
        (let y_inner = [1 / 100, 2 / 100, 5 / 100, 1 / 10];
             y_mid0 = [6 / 10, 12 / 10, 2, 25 / 10];
             y_mid = (if sublist ''SW'' m then map (\<lambda>v. v * (488 / 1000)) y_mid0 else y_mid0);
             y_outer = [5, 8];
             y_offsets = y_inner @ y_mid @ y_outer;
             x_offsets = [- 8, - 6, - 4, - 2, 0, 2, 4, 6, 8];
             x_sorted = sort (map (\<lambda>v. - 1 * v) x_offsets);
             y_all = map (\<lambda>v. - 1 * v) y_offsets @ [0] @ y_offsets
         in (x_sorted, sort (map (\<lambda>v. - 1 * v) y_all)))
      else ([- 8, - 5, - 2, 0, 2, 5, 8], [- 8, - (15 / 10), - (1 / 10), - (1 / 100), 0]))"

definition mask_offsets :: "instrument \<Rightarrow> bool \<Rightarrow> py_error + rat list \<times> rat list \<times> rat \<times> bool" where
  "mask_offsets c large_grid =
     (case image_mask c of
        None \<Rightarrow> Inl TypeError
      | Some m \<Rightarrow>
          (case name c of
             MIRI \<Rightarrow>
               (case miri_xy_offsets m large_grid of
                  Inl e \<Rightarrow> Inl e
                | Inr xy_offsets \<Rightarrow> Inr (sort xy_offsets, sort xy_offsets, 1 / 100, False))
           | NIRCam \<Rightarrow>
               (if m = [] then Inl IndexError
                else if last m = CHR ''R'' then
                  (let xy_offsets = round_xy_offsets m large_grid
                   in Inr (sort xy_offsets, sort xy_offsets, 1 / 10, False))
                else
                  (case bar_offsets m large_grid of
                     (x_offsets, y_offsets) \<Rightarrow> Inr (x_offsets, y_offsets, 1 / 10, True)))))"

text \<open>
  The nodes of the small-grid-dither region (\<open>ind_sgd\<close>): within \<open>iwa\<close> of the mask centre
  in both axes (round masks and MIRI) or in y only (bar masks), the centre itself excluded.
  \<open>xy_list\<close> is the flattened \<open>np.meshgrid(x_offsets, y_offsets)\<close>, x running fastest.
\<close>

definition ind_sgd :: "rat \<Rightarrow> bool \<Rightarrow> rat \<times> rat \<Rightarrow> bool" where
  "ind_sgd iwa bar xy =
     (case xy of (xoff, yoff) \<Rightarrow>
        (let ind_zero = (\<bar>xoff\<bar> = 0 \<and> \<bar>yoff\<bar> = 0) in
         if bar then \<bar>yoff\<bar> \<le> iwa \<and> \<not> ind_zero
         else \<bar>xoff\<bar> \<le> iwa \<and> \<bar>yoff\<bar> \<le> iwa \<and> \<not> ind_zero))"

definition xy_list :: "rat list \<Rightarrow> rat list \<Rightarrow> (rat \<times> rat) list" where
  "xy_list x_offsets y_offsets = concat (map (\<lambda>y. map (\<lambda>x. (x, y)) x_offsets) y_offsets)"

text \<open>
  The first pass over the nodes: \<open>gen_psf_coeff\<close> is called at every node outside the
  dither region and its cube stored in \<open>cf_all[i]\<close>; the rows of the dither region keep the
  zeros of \<open>np.zeros\<close>. \<open>coeff0\<close> is the cube of the last node with \<open>xv == 0\<close> and
  \<open>yv == 0\<close>; it is the second component of the result (\<open>None\<close> when no such node was
  computed).
\<close>

fun first_pass ::
  "(rat \<Rightarrow> rat \<Rightarrow> py_error + ('a::ab_group_add) cube) \<Rightarrow> (rat \<times> rat \<Rightarrow> bool) \<Rightarrow> nat \<Rightarrow> nat
     \<Rightarrow> (rat \<times> rat) list \<Rightarrow> py_error + 'a cube list \<times> 'a cube option" where
  "first_pass gen_psf_coeff sgd ncf npix [] = Inr ([], None)"
| "first_pass gen_psf_coeff sgd ncf npix ((xv, yv) # rest) =
     (if \<not> sgd (xv, yv) then
        (case checked_cube ncf npix (gen_psf_coeff xv yv) of
           Inl e \<Rightarrow> Inl e
         | Inr cf \<Rightarrow>
             (case first_pass gen_psf_coeff sgd ncf npix rest of
                Inl e \<Rightarrow> Inl e
              | Inr (cfs, later) \<Rightarrow>
                  Inr (cf # cfs,
                       (case later of
                          Some c \<Rightarrow> Some c
                        | None \<Rightarrow> if xv = 0 \<and> yv = 0 then Some cf else None))))
      else
        (case first_pass gen_psf_coeff sgd ncf npix rest of
           Inl e \<Rightarrow> Inl e
         | Inr (cfs, later) \<Rightarrow> Inr (zero_cube ncf npix # cfs, later)))"

text \<open>
  \<open>reshape2\<close> is \<open>reshape([nypos, nxpos, ...])\<close> of a flat list of nodes. The three
  derived quadrants of a grid \<open>g\<close> whose last row and last column are the axes:
  \<open>g[:-1,:][::-1,:]\<close>, \<open>g[:,:-1][:,::-1]\<close> and \<open>g[:-1,:-1][::-1,::-1]\<close>, with a function
  applied to every node; \<open>combine_quadrants\<close> is the pair of \<open>np.concatenate\<close> calls along
  axis 0 followed by the one along axis 1.
\<close>

definition reshape2 :: "nat \<Rightarrow> nat \<Rightarrow> 'b list \<Rightarrow> 'b list list" where
  "reshape2 nypos nxpos flat = map (\<lambda>i. take nxpos (drop (i * nxpos) flat)) [0..<nypos]"

definition neg_grid :: "rat list list \<Rightarrow> rat list list" where
  "neg_grid g = map (map uminus) g"

definition quad_negy :: "('b \<Rightarrow> 'b) \<Rightarrow> 'b list list \<Rightarrow> 'b list list" where
  "quad_negy f g = map (map f) (rev (butlast g))"

definition quad_negx :: "('b \<Rightarrow> 'b) \<Rightarrow> 'b list list \<Rightarrow> 'b list list" where
  "quad_negx f g = map (map f) (map rev (map butlast g))"

definition quad_negxy :: "('b \<Rightarrow> 'b) \<Rightarrow> 'b list list \<Rightarrow> 'b list list" where
  "quad_negxy f g = map (map f) (map rev (rev (map butlast (butlast g))))"

definition combine_quadrants ::
  "'b list list \<Rightarrow> 'b list list \<Rightarrow> 'b list list \<Rightarrow> 'b list list \<Rightarrow> 'b list list" where
  "combine_quadrants q negy negx negxy = map2 (@) (q @ negy) (negx @ negxy)"

text \<open>
  The branch of the symmetry section, chosen after the first pass from the instrument, the
  last character of the mask name and \<open>large_grid\<close>. \<open>field_rot2\<close> is
  \<open>0 if self._rotation is None else 2*self._rotation\<close>. In the two NIRCam small-grid
  branches the rotation is applied under \<open>if np.abs(field_rot) < 0.01\<close>
  (\<open>rotate_small\<close>).
\<close>

datatype sym_branch = MiriQuad | RoundLarge | BarLarge | RoundSmall | BarSmall

definition wfemask_branch :: "instrument \<Rightarrow> bool \<Rightarrow> py_error + sym_branch" where
  "wfemask_branch c large_grid =
     (case image_mask c of
        None \<Rightarrow> Inl TypeError
      | Some m \<Rightarrow>
          (case name c of
             MIRI \<Rightarrow> Inr MiriQuad
           | NIRCam \<Rightarrow>
               (if m = [] then Inl IndexError
                else if last m = CHR ''R'' \<and> large_grid then Inr RoundLarge
                else if last m = CHR ''B'' \<and> large_grid then Inr BarLarge
                else if last m = CHR ''R'' \<and> \<not> large_grid then Inr RoundSmall
                else if last m = CHR ''B'' \<and> \<not> large_grid then Inr BarSmall
                else Inl NotImplementedError)))"

definition branch_bar :: "sym_branch \<Rightarrow> bool" where
  "branch_bar b = (b = BarLarge \<or> b = BarSmall)"

definition field_rot2 :: "instrument \<Rightarrow> rat" where
  "field_rot2 c = (case rotation c of None \<Rightarrow> 0 | Some r \<Rightarrow> 2 * r)"

definition rotate_small :: "(rat \<Rightarrow> 'a image \<Rightarrow> 'a image) \<Rightarrow> rat \<Rightarrow> 'a cube \<Rightarrow> 'a cube" where
  "rotate_small nd_rotate field_rot cf =
     (if \<bar>field_rot\<bar> < 1 / 100 then rotate_offset nd_rotate field_rot cf else cf)"

definition stitch_xoff :: "rat list list \<Rightarrow> rat list list" where
  "stitch_xoff xoff =
     combine_quadrants xoff (butlast xoff) (neg_grid (map rev (map butlast xoff)))
       (neg_grid (map rev (rev (map butlast (butlast xoff)))))"

definition stitch_yoff :: "rat list list \<Rightarrow> rat list list" where
  "stitch_yoff yoff =
     combine_quadrants yoff (neg_grid (rev (butlast yoff))) (map butlast yoff)
       (neg_grid (map rev (rev (map butlast (butlast yoff)))))"

definition stitch ::
  "(rat \<Rightarrow> 'a image \<Rightarrow> 'a image) \<Rightarrow> instrument \<Rightarrow> sym_branch
     \<Rightarrow> rat list list \<Rightarrow> rat list list \<Rightarrow> 'a cube list list
     \<Rightarrow> rat list list \<times> rat list list \<times> 'a cube list list" where
  "stitch nd_rotate c b xoff yoff cf_resid =
     (let field_rot = field_rot2 c in
      case b of
        MiriQuad \<Rightarrow>
          (stitch_xoff xoff, stitch_yoff yoff,
           combine_quadrants cf_resid
             (quad_negy (\<lambda>cf. rotate_offset nd_rotate field_rot (flip_y cf)) cf_resid)
             (quad_negx (\<lambda>cf. rotate_offset nd_rotate field_rot (flip_x cf)) cf_resid)
             (quad_negxy (\<lambda>cf. flip_x (flip_y cf)) cf_resid))
      | RoundLarge \<Rightarrow> (xoff, yoff, cf_resid)
      | BarLarge \<Rightarrow> (xoff, yoff, cf_resid)
      | RoundSmall \<Rightarrow>
          (stitch_xoff xoff, stitch_yoff yoff,
           combine_quadrants cf_resid
             (quad_negy (\<lambda>cf. cf) cf_resid)
             (quad_negx (\<lambda>cf. rotate_small nd_rotate field_rot (flip_x cf)) cf_resid)
             (quad_negxy (\<lambda>cf. rotate_small nd_rotate field_rot (flip_x cf)) cf_resid))
      | BarSmall \<Rightarrow>
          (xoff @ butlast xoff,
           yoff @ neg_grid (rev (butlast yoff)),
           cf_resid @ quad_negy (\<lambda>cf. rotate_small nd_rotate field_rot (flip_y cf)) cf_resid))"

text \<open>
  The second pass: every node of the dither region of the whole grid is computed and
  \<open>cf_resid_all[(xoff_all==xv) & (yoff_all==yv)] = cf - coeff0\<close> (\<open>grid_assign\<close>). The
  loop sits in \<open>try: ... except: raise e\<close> with no \<open>e\<close> bound at that point, so any error
  of the pass leaves the function as an \<open>UnboundLocalError\<close>.
\<close>

definition grid_assign ::
  "rat list list \<Rightarrow> rat list list \<Rightarrow> 'b list list \<Rightarrow> rat \<Rightarrow> rat \<Rightarrow> 'b \<Rightarrow> 'b list list" where
  "grid_assign xoff_all yoff_all cf_all xv yv new =
     map (\<lambda>(xr, yr, cr). map (\<lambda>(x, y, cf). if x = xv \<and> y = yv then new else cf) (zip xr (zip yr cr)))
       (zip xoff_all (zip yoff_all cf_all))"

fun sgd_pass ::
  "(rat \<Rightarrow> rat \<Rightarrow> py_error + ('a::ab_group_add) cube) \<Rightarrow> nat \<Rightarrow> nat \<Rightarrow> 'a cube
     \<Rightarrow> rat list list \<Rightarrow> rat list list \<Rightarrow> 'a cube list list \<Rightarrow> (rat \<times> rat) list
     \<Rightarrow> py_error + 'a cube list list" where
  "sgd_pass gen_psf_coeff ncf npix coeff0 xoff_all yoff_all cf_all [] = Inr cf_all"
| "sgd_pass gen_psf_coeff ncf npix coeff0 xoff_all yoff_all cf_all ((xv, yv) # rest) =
     (case checked_cube ncf npix (gen_psf_coeff xv yv) of
        Inl e \<Rightarrow> Inl UnboundLocalError
      | Inr cf \<Rightarrow>
          sgd_pass gen_psf_coeff ncf npix coeff0 xoff_all yoff_all
            (grid_assign xoff_all yoff_all cf_all xv yv (cube_sub cf coeff0)) rest)"

text \<open>
  The whole function. Without a coronagraphic configuration it returns at once with no
  result (\<open>None\<close>). \<open>ncf\<close> is \<open>self.ndeg + 1\<close> and \<open>npix\<close> is \<open>fov_pix_over\<close>. The
  result is \<open>cf_resid_all\<close> with the coordinate grids \<open>xoff_all\<close> and \<open>yoff_all\<close> (the
  source returns their first row and first column as \<open>xvals\<close> and \<open>yvals\<close>).
\<close>

definition gen_wfemask_coeff ::
  "(rat \<Rightarrow> rat \<Rightarrow> py_error + ('a::ab_group_add) cube) \<Rightarrow> (rat \<Rightarrow> 'a image \<Rightarrow> 'a image) \<Rightarrow> instrument
     \<Rightarrow> bool \<Rightarrow> nat \<Rightarrow> nat
     \<Rightarrow> py_error + ('a cube list list \<times> rat list list \<times> rat list list) option" where
  "gen_wfemask_coeff gen_psf_coeff nd_rotate c large_grid ncf npix =
     (if \<not> is_coron c then Inr None
      else
       case mask_offsets c large_grid of
        Inl e \<Rightarrow> Inl e
      | Inr (x_offsets, y_offsets, iwa, bar) \<Rightarrow>
          (let nodes = xy_list x_offsets y_offsets in
           case first_pass gen_psf_coeff (ind_sgd iwa bar) ncf npix nodes of
             Inl e \<Rightarrow> Inl e
           | Inr (cf_all, None) \<Rightarrow> Inl UnboundLocalError
           | Inr (cf_all, Some coeff0) \<Rightarrow>
               (let nxpos = length x_offsets; nypos = length y_offsets;
                    xoff = reshape2 nypos nxpos (map fst nodes);
                    yoff = reshape2 nypos nxpos (map snd nodes);
                    cf_resid = reshape2 nypos nxpos (map (\<lambda>cf. cube_sub cf coeff0) cf_all)
                in case wfemask_branch c large_grid of
                     Inl e \<Rightarrow> Inl e
                   | Inr b \<Rightarrow>
                       (case stitch nd_rotate c b xoff yoff cf_resid of
                          (xoff_all, yoff_all, cf_resid_all) \<Rightarrow>
                            (let sgd_nodes = filter (ind_sgd iwa (branch_bar b))
                                               (concat (map2 zip xoff_all yoff_all))
                             in case sgd_pass gen_psf_coeff ncf npix coeff0 xoff_all yoff_all
                                       cf_resid_all sgd_nodes of
                                  Inl e \<Rightarrow> Inl e
                                | Inr cf_final \<Rightarrow> Inr (Some (cf_final, xoff_all, yoff_all)))))))"

text \<open>
  What the symmetry section does to the image of a mirrored node, read off the three
  branches for an instrument whose \<open>field_rot\<close> is \<open>rot\<close>: the counterpart across the x
  axis (\<open>sym_negy\<close>), across the y axis (\<open>sym_negx\<close>) and through the centre
  (\<open>sym_negxy\<close>).
\<close>

definition sym_negy :: "(rat \<Rightarrow> 'a image \<Rightarrow> 'a image) \<Rightarrow> rat \<Rightarrow> sym_branch \<Rightarrow> 'a cube \<Rightarrow> 'a cube" where
  "sym_negy nd_rotate rot b cf =
     (case b of
        MiriQuad \<Rightarrow> rotate_offset nd_rotate rot (flip_y cf)
      | BarSmall \<Rightarrow> flip_y cf
      | _ \<Rightarrow> cf)"

definition sym_negx :: "(rat \<Rightarrow> 'a image \<Rightarrow> 'a image) \<Rightarrow> rat \<Rightarrow> sym_branch \<Rightarrow> 'a cube \<Rightarrow> 'a cube" where
  "sym_negx nd_rotate rot b cf =
     (case b of
        MiriQuad \<Rightarrow> rotate_offset nd_rotate rot (flip_x cf)
      | _ \<Rightarrow> flip_x cf)"

definition sym_negxy :: "sym_branch \<Rightarrow> 'a cube \<Rightarrow> 'a cube" where
  "sym_negxy b cf =
     (case b of
        MiriQuad \<Rightarrow> flip_x (flip_y cf)
      | _ \<Rightarrow> flip_x cf)"

text \<open>A grid of \<open>ny\<close> rows of \<open>nx\<close> nodes each.\<close>

definition rect :: "nat \<Rightarrow> nat \<Rightarrow> 'b list list \<Rightarrow> bool" where
  "rect ny nx g = (length g = ny \<and> (\<forall>r \<in> set g. length r = nx))"

section \<open>Concrete inputs\<close>

definition engine_demo :: "rat \<Rightarrow> rat image option" where
  "engine_demo w = (if w = 2 then None else Some [[w]])"

definition demo_nircam :: instrument where
  "demo_nircam =
     \<lparr>name = NIRCam, filter_name = ''F444W'', pupil_mask = None, image_mask = None,
      nrc_module = ''A'', channel = ''long'', fov_pix = 64, oversample_set = None,
      use_fov_pix_plus1_set = None, quick_set = None, npsf_set = Some 3, ndeg_set = None,
      use_legendre = True, include_si_wfe = True, include_distortions = True,
      bandpass_wave_min = 38000, bandpass_wave_max = 50000, options = (\<lambda>k. None),
      bar_offset = None, opd_str = ''OPD'', rotation = None\<rparr>"

definition no_interp :: "rat image \<Rightarrow> rat \<Rightarrow> rat \<Rightarrow> py_error + rat image" where
  "no_interp im dx dy = Inl NotImplementedError"

definition demo_ops :: "(int, rat \<times> rat, int) psf_ops" where
  "demo_ops =
     \<lparr>op_wfe_field = (\<lambda>cv. Inr (10, None)),
      op_wfe_mask = (\<lambda>cv. Inr (20, None)),
      op_wfe_drift = (\<lambda>w cv. Inr 5),
      gen_image_from_coeff = (\<lambda>c. Inr c),
      coeff_add = (\<lambda>a b. a + b),
      coeff_zero = 0,
      coeff_index = (\<lambda>c i. c)\<rparr>"


definition demo_cube :: "rat \<Rightarrow> rat \<Rightarrow> py_error + rat cube" where
  "demo_cube x y = Inr [[[x, y], [x * y, 1]]]"

definition demo_rot :: "rat \<Rightarrow> rat image \<Rightarrow> rat image" where
  "demo_rot angle im = im"

definition demo_round :: instrument where
  "demo_round = demo_nircam\<lparr>image_mask := Some ''MASK335R'', pupil_mask := Some ''CIRCLYOT''\<rparr>"



section \<open>Theorems\<close>

subsection \<open>Degree against samples\<close>




subsection \<open>Energy of the samples\<close>




lemma clamp_all_None: "None \<in> set hs \<Longrightarrow> clamp_all hs = Inl AttributeError"
  by (induction hs rule: clamp_all.induct) (auto split: sum.splits)



subsection \<open>Engine failures in the batch\<close>

lemma single_process_log:
  "single_process calc ws = (lg, r) \<Longrightarrow> set lg \<subseteq> {w \<in> set ws. calc w = None}"
  by (induction ws arbitrary: lg r)
     (auto simp: wrap_coeff_for_mp_def split: option.splits prod.splits sum.splits)

lemma single_process_fail:
  "w \<in> set ws \<Longrightarrow> calc w = None \<Longrightarrow>
   \<exists>lg. single_process calc ws = (lg, Inl RuntimeError) \<and> (\<exists>w'. w' \<in> set lg)"
  by (induction ws)
     (auto simp: wrap_coeff_for_mp_def split: option.splits prod.splits sum.splits)

lemma single_process_ok:
  "single_process calc ws = (lg, Inr hs) \<Longrightarrow> hs = map calc ws \<and> None \<notin> set hs \<and> lg = []"
  by (induction ws arbitrary: lg hs)
     (auto simp: wrap_coeff_for_mp_def split: option.splits prod.splits sum.splits)

lemma multi_process_log:
  "fst (multi_process calc ws) = filter (\<lambda>w. calc w = None) ws"
proof -
  have "concat (map (fst \<circ> wrap_coeff_for_mp calc) ws) = filter (\<lambda>w. calc w = None) ws"
    by (induction ws) (auto simp: wrap_coeff_for_mp_def split: option.splits)
  then show ?thesis
    by (auto simp: multi_process_def Let_def split: list.splits option.splits)
qed

lemma multi_process_ok:
  "multi_process calc ws = (lg, Inr hs) \<Longrightarrow> hs = map calc ws"
  by (auto simp: multi_process_def Let_def wrap_coeff_for_mp_def comp_def
           split: list.splits option.splits cong: map_cong)

text \<open>
  Claim C2. If the engine raises at any wavelength of the batch, \<open>_gen_psf_coeff\<close>
  ends with an error and \<open>jl_poly_fit\<close> is never applied, with a pool (\<open>nproc > 1\<close>)
  and without: the single-process loop raises RuntimeError at the first failure; the pool
  raises RuntimeError when the first result is \<open>None\<close>, and otherwise the
  normalisation loop raises AttributeError on the \<open>None\<close> entry. The error log is not
  empty and holds only wavelengths of the batch at which the engine raised.
\<close>

theorem batch_failure_containment:
  fixes calc_psf :: "'w \<Rightarrow> ('a::linordered_field) image option"
  assumes "w \<in> set waves" and "calc_psf w = None"
  shows "\<exists>lg e. gen_psf_coeff_batch calc_psf fit nproc waves = (lg, Inl e)
           \<and> (e = RuntimeError \<or> e = AttributeError)
           \<and> lg \<noteq> []
           \<and> set lg \<subseteq> {v \<in> set waves. calc_psf v = None}"
proof (cases "nproc > 1")
  case True
  obtain lg r where mp: "multi_process calc_psf waves = (lg, r)"
    by (cases "multi_process calc_psf waves")
  have lg: "lg = filter (\<lambda>v. calc_psf v = None) waves"
    using multi_process_log [of calc_psf waves] mp by simp
  have ne: "lg \<noteq> []"
    using assms lg by (auto simp: filter_empty_conv)
  have sub: "set lg \<subseteq> {v \<in> set waves. calc_psf v = None}"
    using lg by auto
  have nonempty: "waves \<noteq> []" using assms by auto
  show ?thesis
  proof (cases r)
    case (Inl e)
    then have "e = RuntimeError"
      using mp nonempty
      by (auto simp: multi_process_def Let_def split: list.splits option.splits)
    then show ?thesis
      using True mp Inl ne sub by (simp add: gen_psf_coeff_batch_def)
  next
    case (Inr hs)
    then have "hs = map calc_psf waves"
      using mp multi_process_ok by blast
    then have "None \<in> set hs"
      using assms by force
    then have "clamp_all hs = Inl AttributeError"
      by (rule clamp_all_None)
    then show ?thesis
      using True mp Inr ne sub by (simp add: gen_psf_coeff_batch_def)
  qed
next
  case False
  obtain lg where sp: "single_process calc_psf waves = (lg, Inl RuntimeError)"
    and ne: "\<exists>w'. w' \<in> set lg"
    using single_process_fail [where w=w and ws=waves and calc=calc_psf, OF assms] by blast
  have sub: "set lg \<subseteq> {v \<in> set waves. calc_psf v = None}"
    using single_process_log [OF sp] .
  show ?thesis
    using False sp ne sub by (auto simp: gen_psf_coeff_batch_def)
qed

theorem batch_failure_containment_witness:
  "(2::rat) \<in> set [1, 2, 3] \<and> engine_demo 2 = None
   \<and> gen_psf_coeff_batch engine_demo (\<lambda>ws ims. ims) 4 [1, 2, 3] = ([2], Inl AttributeError)
   \<and> gen_psf_coeff_batch engine_demo (\<lambda>ws ims. ims) 1 [1, 2, 3] = ([2], Inl RuntimeError)"
proof -
  have h1: "(2::rat) \<in> set [1, 2, 3]" by simp
  have h2: "engine_demo 2 = None" by (simp add: engine_demo_def)
  note t = batch_failure_containment [where w=2 and waves="[1, 2, 3]" and calc_psf=engine_demo
      and fit="\<lambda>ws ims. ims" and nproc=4, OF h1 h2]
  show ?thesis
    using t h1 h2
    by (simp add: gen_psf_coeff_batch_def multi_process_def single_process.simps
        wrap_coeff_for_mp_def engine_demo_def Let_def)
qed

subsection \<open>Centred resizing\<close>

lemma py_int_half: "py_int (of_nat k / 2 + 1 / 2) = int ((k + 1) div 2)"
proof -
  have "(of_nat k / 2 + 1 / 2 :: rat) = of_int (int k + 1) / of_int 2"
    by (simp add: add_divide_distrib)
  then have "\<lfloor>(of_nat k / 2 + 1 / 2 :: rat)\<rfloor> = (int k + 1) div 2"
    by (simp only: floor_divide_of_int_eq)
  moreover have "(0::rat) \<le> of_nat k / 2 + 1 / 2" by simp
  ultimately show ?thesis
    unfolding py_int_def by (simp add: zdiv_int)
qed

lemma py_int_half_plus: "py_int (of_nat k / 2 + of_nat n + 1 / 2) = int ((k + 1) div 2 + n)"
proof -
  have "(of_nat k / 2 + of_nat n + 1 / 2 :: rat) = of_int (int k + 1 + 2 * int n) / of_int 2"
    by (simp add: add_divide_distrib)
  then have "\<lfloor>(of_nat k / 2 + of_nat n + 1 / 2 :: rat)\<rfloor> = (int k + 1 + 2 * int n) div 2"
    by (simp only: floor_divide_of_int_eq)
  moreover have "(0::rat) \<le> of_nat k / 2 + of_nat n + 1 / 2" by simp
  ultimately show ?thesis
    unfolding py_int_def by (simp add: zdiv_int)
qed

lemma py_int_nat: "py_int (of_nat n + 1 / 2) = int n"
proof -
  have "\<lfloor>(of_nat n + 1 / 2 :: rat)\<rfloor> = int n" by (simp add: floor_eq_iff)
  then show ?thesis unfolding py_int_def by simp
qed

lemma py_int_half_diff:
  "b \<le> a \<Longrightarrow> py_int ((of_nat a - of_nat b) / 2 + 1 / 2) = int ((a - b + 1) div 2)"
  using py_int_half [of "a - b"] by (simp add: of_nat_diff)

lemma py_int_half_plus_diff:
  "b \<le> a \<Longrightarrow> py_int ((of_nat a - of_nat b) / 2 + of_nat n + 1 / 2) = int ((a - b + 1) div 2 + n)"
  using py_int_half_plus [of "a - b" n] by (simp add: of_nat_diff)

lemma centre_bounds_pad:
  "nx < nx_new \<Longrightarrow>
   centre_bounds nx nx_new = ((nx_new - nx + 1) div 2, (nx_new - nx + 1) div 2 + nx)"
  unfolding centre_bounds_def Let_def
  by (simp add: py_int_half_diff py_int_half_plus_diff del: of_nat_add of_nat_diff)

lemma centre_bounds_cut:
  "nx_new < nx \<Longrightarrow>
   centre_bounds nx nx_new = ((nx - nx_new + 1) div 2, (nx - nx_new + 1) div 2 + nx_new)"
  unfolding centre_bounds_def Let_def
  by (simp add: py_int_half_diff py_int_half_plus_diff del: of_nat_add of_nat_diff)

lemma centre_bounds_same: "centre_bounds nx nx = (0, nx)"
proof -
  have "\<lfloor>(1 / 2 :: rat)\<rfloor> = 0" by (simp add: floor_eq_iff)
  then have "py_int (1 / 2) = 0" unfolding py_int_def by simp
  then show ?thesis
    unfolding centre_bounds_def Let_def by (simp add: py_int_nat)
qed


lemma centre_bounds_ge:
  "ny \<le> ny_new \<Longrightarrow>
   centre_bounds ny ny_new = ((ny_new - ny + 1) div 2, (ny_new - ny + 1) div 2 + ny)"
  by (cases "ny = ny_new") (simp_all add: centre_bounds_same centre_bounds_pad)

lemma centre_bounds_le:
  "ny_new \<le> ny \<Longrightarrow>
   centre_bounds ny ny_new = ((ny - ny_new + 1) div 2, (ny - ny_new + 1) div 2 + ny_new)"
  by (cases "ny = ny_new") (simp_all add: centre_bounds_same centre_bounds_cut)

lemma half_up_le: "(d + 1) div 2 \<le> (d::nat)"
  by (cases "d = 0") auto

lemma centre1_pad:
  "length xs = n \<Longrightarrow> n \<le> n_new \<Longrightarrow>
   centre1 n_new pad xs
     = replicate ((n_new - n + 1) div 2) pad @ xs
       @ replicate (n_new - n - (n_new - n + 1) div 2) pad"
  by (simp add: centre1_def)

lemma centre1_cut:
  "length xs = n \<Longrightarrow> n_new \<le> n \<Longrightarrow>
   centre1 n_new pad xs = take n_new (drop ((n - n_new + 1) div 2) xs)"
  by (cases "n = n_new") (simp_all add: centre1_def)

lemma length_centre1: "length (centre1 n_new pad xs) = n_new"
proof (cases "length xs \<le> n_new")
  case True
  have "(n_new - length xs + 1) div 2 \<le> n_new - length xs" by (rule half_up_le)
  then show ?thesis using True by (simp add: centre1_def Let_def)
next
  case False
  have "(length xs - n_new + 1) div 2 \<le> length xs - n_new" by (rule half_up_le)
  then show ?thesis using False by (simp add: centre1_def Let_def)
qed

lemma set_centre1: "set (centre1 n_new pad xs) \<subseteq> insert pad (set xs)"
proof (cases "length xs \<le> n_new")
  case True
  then show ?thesis by (auto simp: centre1_def Let_def)
next
  case False
  have "set (take n_new (drop ((length xs - n_new + 1) div 2) xs)) \<subseteq> set xs"
    by (meson set_take_subset set_drop_subset subset_trans)
  then show ?thesis using False by (auto simp: centre1_def Let_def)
qed

lemma is_shape2_centre_resize: "is_shape2 ny_new nx_new (centre_resize ny_new nx_new pad im)"
proof -
  have "length r = nx_new"
    if "r \<in> set (centre1 ny_new (replicate nx_new pad) (map (centre1 nx_new pad) im))" for r
  proof -
    have "r = replicate nx_new pad \<or> r \<in> set (map (centre1 nx_new pad) im)"
      using that set_centre1 [of ny_new "replicate nx_new pad" "map (centre1 nx_new pad) im"]
      by blast
    then show ?thesis by (auto simp: length_centre1)
  qed
  then show ?thesis
    unfolding is_shape2_def centre_resize_def by (simp add: length_centre1 list_all_iff)
qed

lemma shift_planes_id:
  "list_all (is_shape2 ny nx) ims \<Longrightarrow> shift_planes (fshift interp) 0 0 ny nx ims = Inr ims"
  by (induction ims) (simp_all add: fshift_def)

lemma map2_replicate_left:
  "length ys = n \<Longrightarrow> map2 f (replicate n x) ys = map (f x) ys"
  by (induction ys arbitrary: n) auto

lemma put_row:
  "length srow = nx \<Longrightarrow> n0 + nx \<le> nx_new \<Longrightarrow>
   take n0 (replicate nx_new f) @ srow @ drop (n0 + nx) (replicate nx_new f)
     = replicate n0 f @ srow @ replicate (nx_new - nx - n0) f"
  by (simp add: min_def)


lemma fill_value: "(if fill_val \<noteq> 0 then 0 + fill_val else 0) = (fill_val :: 'a::monoid_add)"
  by simp

lemma row_pad:
  assumes "length srow = nx" and "nx \<le> nx_new"
  shows "take ((nx_new - nx + 1) div 2) (replicate nx_new f) @ srow
           @ drop ((nx_new - nx + 1) div 2 + nx) (replicate nx_new f)
         = centre1 nx_new f srow"
proof -
  have "(nx_new - nx + 1) div 2 \<le> nx_new - nx" by (rule half_up_le)
  then have le: "(nx_new - nx + 1) div 2 + nx \<le> nx_new" using assms(2) by simp
  show ?thesis
    using put_row [OF assms(1) le, of f] centre1_pad [OF assms, of f] by simp
qed

lemma rows_pad:
  assumes "length rows = ny" and "ny \<le> ny_new"
  shows "take ((ny_new - ny + 1) div 2) (replicate ny_new r0) @ rows
           @ drop ((ny_new - ny + 1) div 2 + ny) (replicate ny_new r0)
         = centre1 ny_new r0 rows"
  using row_pad [OF assms, of r0] .

lemma plane_pad:
  assumes sh: "is_shape2 ny nx sim" and y: "ny \<le> ny_new" and x: "nx \<le> nx_new"
  shows "take ((ny_new - ny + 1) div 2) (replicate ny_new (replicate nx_new f))
         @ map2 (\<lambda>orow srow. take ((nx_new - nx + 1) div 2) orow @ srow
                                 @ drop ((nx_new - nx + 1) div 2 + nx) orow)
             (take ((ny_new - ny + 1) div 2 + ny - (ny_new - ny + 1) div 2)
                (drop ((ny_new - ny + 1) div 2) (replicate ny_new (replicate nx_new f)))) sim
         @ drop ((ny_new - ny + 1) div 2 + ny) (replicate ny_new (replicate nx_new f))
         = centre_resize ny_new nx_new f sim"
proof -
  have len: "length sim = ny" and rows: "\<forall>r \<in> set sim. length r = nx"
    using sh by (simp_all add: is_shape2_def list_all_iff)
  have "(ny_new - ny + 1) div 2 \<le> ny_new - ny" by (rule half_up_le)
  then have le: "(ny_new - ny + 1) div 2 + ny \<le> ny_new" using y by simp
  have mid: "take ((ny_new - ny + 1) div 2 + ny - (ny_new - ny + 1) div 2)
                (drop ((ny_new - ny + 1) div 2) (replicate ny_new (replicate nx_new f)))
             = replicate ny (replicate nx_new f)"
  proof -
    have "ny \<le> ny_new - (ny_new - ny + 1) div 2" using le by linarith
    then show ?thesis by (simp add: min_def)
  qed
  have m2: "map2 (\<lambda>orow srow. take ((nx_new - nx + 1) div 2) orow @ srow
                                 @ drop ((nx_new - nx + 1) div 2 + nx) orow)
              (replicate ny (replicate nx_new f)) sim
            = map (centre1 nx_new f) sim"
  proof -
    have "map2 (\<lambda>orow srow. take ((nx_new - nx + 1) div 2) orow @ srow
                                 @ drop ((nx_new - nx + 1) div 2 + nx) orow)
              (replicate ny (replicate nx_new f)) sim
          = map (\<lambda>srow. take ((nx_new - nx + 1) div 2) (replicate nx_new f) @ srow
                                 @ drop ((nx_new - nx + 1) div 2 + nx) (replicate nx_new f)) sim"
      by (rule map2_replicate_left [OF len])
    also have "\<dots> = map (centre1 nx_new f) sim"
      using rows x by (intro map_cong refl row_pad) auto
    finally show ?thesis .
  qed
  have lm: "length (map (centre1 nx_new f) sim) = ny" using len by simp
  show ?thesis
    unfolding centre_resize_def mid m2
    using rows_pad [OF lm y, of "replicate nx_new f"] .
qed


lemma shape3_planes:
  "is_shape3 nz ny nx arr \<Longrightarrow> length arr = nz \<and> (\<forall>im \<in> set arr. is_shape2 ny nx im)"
  by (simp add: is_shape3_def list_all_iff)

lemma centred_planes_shape:
  "list_all (is_shape2 ny_new nx_new) (map (centre_resize ny_new nx_new f) arr)"
  by (simp add: list_all_iff is_shape2_centre_resize)

lemma assign3_pad:
  assumes sh: "is_shape3 nz ny nx arr" and y: "ny \<le> ny_new" and x: "nx \<le> nx_new"
  shows "assign3 ((ny_new - ny + 1) div 2) ((ny_new - ny + 1) div 2 + ny)
           ((nx_new - nx + 1) div 2) ((nx_new - nx + 1) div 2 + nx)
           (nz, ny_new, nx_new) (replicate nz (replicate ny_new (replicate nx_new f)))
           (nz, ny, nx) arr
         = Inr (map (centre_resize ny_new nx_new f) arr)"
proof -
  have len: "length arr = nz" and pl: "\<forall>im \<in> set arr. is_shape2 ny nx im"
    using shape3_planes [OF sh] by simp_all
  have "(ny_new - ny + 1) div 2 \<le> ny_new - ny" by (rule half_up_le)
  then have ly: "(ny_new - ny + 1) div 2 + ny \<le> ny_new" using y by simp
  have "(nx_new - nx + 1) div 2 \<le> nx_new - nx" by (rule half_up_le)
  then have lx: "(nx_new - nx + 1) div 2 + nx \<le> nx_new" using x by simp
  have cy: "min ((ny_new - ny + 1) div 2 + ny) ny_new - min ((ny_new - ny + 1) div 2) ny_new = ny"
    using ly by (simp add: min_def)
  have cx: "min ((nx_new - nx + 1) div 2 + nx) nx_new - min ((nx_new - nx + 1) div 2) nx_new = nx"
    using lx by (simp add: min_def)
  have body: "map2 (\<lambda>oim sim.
                 take ((ny_new - ny + 1) div 2) oim
                 @ map2 (\<lambda>orow srow. take ((nx_new - nx + 1) div 2) orow @ srow
                                         @ drop ((nx_new - nx + 1) div 2 + nx) orow)
                     (take ((ny_new - ny + 1) div 2 + ny - (ny_new - ny + 1) div 2)
                        (drop ((ny_new - ny + 1) div 2) oim)) sim
                 @ drop ((ny_new - ny + 1) div 2 + ny) oim)
               (replicate nz (replicate ny_new (replicate nx_new f))) arr
             = map (centre_resize ny_new nx_new f) arr"
    unfolding map2_replicate_left [OF len]
    using pl by (intro map_cong refl plane_pad [OF _ y x]) auto
  show ?thesis
    unfolding assign3_def prod.case cy cx using body by simp
qed

lemma resize_core_pad:
  fixes fill_val :: "'a::monoid_add"
  assumes sh: "is_shape3 nz ny nx arr" and y: "ny \<le> ny_new" and x: "nx \<le> nx_new"
  shows "resize_core (fshift interp) nz ny nx arr ny_new nx_new fill_val 0 0
         = Inr (map (centre_resize ny_new nx_new fill_val) arr)"
  by (simp only: resize_core_def Let_def fill_value centre_bounds_ge [OF y]
      centre_bounds_ge [OF x] prod.case assign3_pad [OF sh y x] sum.case
      shift_planes_id [OF centred_planes_shape] x y simp_thms if_True)


lemma rows_cut:
  assumes rows: "\<forall>r \<in> set sim. length r = nx" and x: "nx_new \<le> nx"
  shows "map (\<lambda>row. take nx_new (drop ((nx - nx_new + 1) div 2) row)) sim
         = map (centre1 nx_new f) sim"
  using rows x by (intro map_cong refl centre1_cut [symmetric]) auto

lemma plane_cut:
  assumes sh: "is_shape2 ny nx sim" and y: "ny_new \<le> ny" and x: "nx_new \<le> nx"
  shows "map (\<lambda>row. take nx_new (drop ((nx - nx_new + 1) div 2) row))
           (take ny_new (drop ((ny - ny_new + 1) div 2) sim))
         = centre_resize ny_new nx_new f sim"
proof -
  have len: "length sim = ny" and rows: "\<forall>r \<in> set sim. length r = nx"
    using sh by (simp_all add: is_shape2_def list_all_iff)
  have lm: "length (map (centre1 nx_new f) sim) = ny" using len by simp
  have "centre_resize ny_new nx_new f sim
        = take ny_new (drop ((ny - ny_new + 1) div 2) (map (centre1 nx_new f) sim))"
    unfolding centre_resize_def by (rule centre1_cut [OF lm y])
  also have "\<dots> = map (centre1 nx_new f) (take ny_new (drop ((ny - ny_new + 1) div 2) sim))"
    by (simp add: take_map drop_map)
  also have "\<dots> = map (\<lambda>row. take nx_new (drop ((nx - nx_new + 1) div 2) row))
                      (take ny_new (drop ((ny - ny_new + 1) div 2) sim))"
  proof (rule rows_cut [symmetric, OF _ x])
    show "\<forall>r \<in> set (take ny_new (drop ((ny - ny_new + 1) div 2) sim)). length r = nx"
      using rows by (auto dest!: in_set_takeD in_set_dropD)
  qed
  finally show ?thesis by simp
qed

lemma resize_core_cut:
  fixes fill_val :: "'a::monoid_add"
  assumes sh: "is_shape3 nz ny nx arr" and y: "ny_new \<le> ny" and x: "nx_new \<le> nx"
    and ne: "\<not> (nx \<le> nx_new \<and> ny \<le> ny_new)"
  shows "resize_core (fshift interp) nz ny nx arr ny_new nx_new fill_val 0 0
         = Inr (map (centre_resize ny_new nx_new fill_val) arr)"
proof -
  have pl: "\<forall>im \<in> set arr. is_shape2 ny nx im"
    using shape3_planes [OF sh] by simp
  have sl: "slice3 ((ny - ny_new + 1) div 2) ((ny - ny_new + 1) div 2 + ny_new)
              ((nx - nx_new + 1) div 2) ((nx - nx_new + 1) div 2 + nx_new) arr
            = map (centre_resize ny_new nx_new fill_val) arr"
    unfolding slice3_def add_diff_cancel_left'
    using pl by (intro map_cong refl plane_cut [OF _ y x]) auto
  show ?thesis
    by (simp only: resize_core_def Let_def fill_value centre_bounds_le [OF y]
        centre_bounds_le [OF x] prod.case sl x y ne simp_thms if_True if_False)
qed


lemma map2_snd_replicate:
  "length ys = n \<Longrightarrow> map2 (\<lambda>orow srow. take 0 orow @ srow @ drop k orow) (replicate n (replicate k f)) ys = ys"
  by (induction ys arbitrary: n) auto

lemma plane_cutx_pady:
  assumes sh: "is_shape2 ny nx sim" and y: "ny \<le> ny_new" and x: "nx_new \<le> nx"
  shows "take ((ny_new - ny + 1) div 2) (replicate ny_new (replicate nx_new f))
         @ map2 (\<lambda>orow srow. take 0 orow @ srow @ drop nx_new orow)
             (take ((ny_new - ny + 1) div 2 + ny - (ny_new - ny + 1) div 2)
                (drop ((ny_new - ny + 1) div 2) (replicate ny_new (replicate nx_new f))))
             (map (\<lambda>row. take ((nx - nx_new + 1) div 2 + nx_new - (nx - nx_new + 1) div 2)
                            (drop ((nx - nx_new + 1) div 2) row))
                (take (ny - 0) (drop 0 sim)))
         @ drop ((ny_new - ny + 1) div 2 + ny) (replicate ny_new (replicate nx_new f))
         = centre_resize ny_new nx_new f sim"
proof -
  have len: "length sim = ny" and rows: "\<forall>r \<in> set sim. length r = nx"
    using sh by (simp_all add: is_shape2_def list_all_iff)
  have "(ny_new - ny + 1) div 2 \<le> ny_new - ny" by (rule half_up_le)
  then have le: "(ny_new - ny + 1) div 2 + ny \<le> ny_new" using y by simp
  have mid: "take ((ny_new - ny + 1) div 2 + ny - (ny_new - ny + 1) div 2)
                (drop ((ny_new - ny + 1) div 2) (replicate ny_new (replicate nx_new f)))
             = replicate ny (replicate nx_new f)"
  proof -
    have "ny \<le> ny_new - (ny_new - ny + 1) div 2" using le by linarith
    then show ?thesis by (simp add: min_def)
  qed
  have src: "map (\<lambda>row. take ((nx - nx_new + 1) div 2 + nx_new - (nx - nx_new + 1) div 2)
                            (drop ((nx - nx_new + 1) div 2) row))
                (take (ny - 0) (drop 0 sim))
             = map (centre1 nx_new f) sim"
    using rows_cut [OF rows x, of f] len by simp
  have lm: "length (map (centre1 nx_new f) sim) = ny" using len by simp
  show ?thesis
    unfolding centre_resize_def mid src map2_snd_replicate [OF lm]
    using rows_pad [OF lm y, of "replicate nx_new f"] .
qed

lemma assign3_cutx_pady:
  assumes sh: "is_shape3 nz ny nx arr" and y: "ny \<le> ny_new" and x: "nx_new \<le> nx"
  shows "assign3 ((ny_new - ny + 1) div 2) ((ny_new - ny + 1) div 2 + ny) 0 nx_new
           (nz, ny_new, nx_new) (replicate nz (replicate ny_new (replicate nx_new f)))
           (nz, ny, min ((nx - nx_new + 1) div 2 + nx_new) nx - min ((nx - nx_new + 1) div 2) nx)
           (slice3 0 ny ((nx - nx_new + 1) div 2) ((nx - nx_new + 1) div 2 + nx_new) arr)
         = Inr (map (centre_resize ny_new nx_new f) arr)"
proof -
  have len: "length arr = nz" and pl: "\<forall>im \<in> set arr. is_shape2 ny nx im"
    using shape3_planes [OF sh] by simp_all
  have "(ny_new - ny + 1) div 2 \<le> ny_new - ny" by (rule half_up_le)
  then have ly: "(ny_new - ny + 1) div 2 + ny \<le> ny_new" using y by simp
  have "(nx - nx_new + 1) div 2 \<le> nx - nx_new" by (rule half_up_le)
  then have lx: "(nx - nx_new + 1) div 2 + nx_new \<le> nx" using x by simp
  have cy: "min ((ny_new - ny + 1) div 2 + ny) ny_new - min ((ny_new - ny + 1) div 2) ny_new = ny"
    using ly by (simp add: min_def)
  have cx: "min ((nx - nx_new + 1) div 2 + nx_new) nx - min ((nx - nx_new + 1) div 2) nx = nx_new"
    using lx by (simp add: min_def)
  have cx0: "min nx_new nx_new - min 0 nx_new = nx_new" by simp
  have lsl: "length (slice3 0 ny ((nx - nx_new + 1) div 2) ((nx - nx_new + 1) div 2 + nx_new) arr) = nz"
    using len by (simp add: slice3_def)
  have body: "map2 (\<lambda>oim sim.
                 take ((ny_new - ny + 1) div 2) oim
                 @ map2 (\<lambda>orow srow. take 0 orow @ srow @ drop nx_new orow)
                     (take ((ny_new - ny + 1) div 2 + ny - (ny_new - ny + 1) div 2)
                        (drop ((ny_new - ny + 1) div 2) oim)) sim
                 @ drop ((ny_new - ny + 1) div 2 + ny) oim)
               (replicate nz (replicate ny_new (replicate nx_new f)))
               (slice3 0 ny ((nx - nx_new + 1) div 2) ((nx - nx_new + 1) div 2 + nx_new) arr)
             = map (centre_resize ny_new nx_new f) arr"
    unfolding map2_replicate_left [OF lsl]
    unfolding slice3_def map_map comp_def
    using pl by (intro map_cong refl plane_cutx_pady [OF _ y x]) auto
  show ?thesis
    unfolding assign3_def prod.case cy cx cx0 using body by simp
qed

lemma resize_core_cutx_pady:
  fixes fill_val :: "'a::monoid_add"
  assumes sh: "is_shape3 nz ny nx arr" and y: "ny \<le> ny_new" and x: "nx_new \<le> nx"
    and n1: "\<not> (nx \<le> nx_new \<and> ny \<le> ny_new)" and n2: "\<not> (nx_new \<le> nx \<and> ny_new \<le> ny)"
  shows "resize_core (fshift interp) nz ny nx arr ny_new nx_new fill_val 0 0
         = Inr (map (centre_resize ny_new nx_new fill_val) arr)"
proof -
  have a: "\<not> nx \<le> nx_new" using n1 y by simp
  have b: "\<not> ny_new \<le> ny" using n2 x by simp
  show ?thesis
    by (simp only: resize_core_def Let_def fill_value centre_bounds_ge [OF y]
        centre_bounds_le [OF x] prod.case assign3_cutx_pady [OF sh y x] sum.case
        shift_planes_id [OF centred_planes_shape] x y a b simp_thms if_True if_False)
qed


lemma plane_padx_cuty:
  assumes sh: "is_shape2 ny nx sim" and y: "ny_new \<le> ny" and x: "nx \<le> nx_new"
  shows "take 0 (replicate ny_new (replicate nx_new f))
         @ map2 (\<lambda>orow srow. take ((nx_new - nx + 1) div 2) orow @ srow
                                 @ drop ((nx_new - nx + 1) div 2 + nx) orow)
             (take (ny_new - 0) (drop 0 (replicate ny_new (replicate nx_new f))))
             (map (\<lambda>row. take (nx - 0) (drop 0 row))
                (take ((ny - ny_new + 1) div 2 + ny_new - (ny - ny_new + 1) div 2)
                   (drop ((ny - ny_new + 1) div 2) sim)))
         @ drop ny_new (replicate ny_new (replicate nx_new f))
         = centre_resize ny_new nx_new f sim"
proof -
  have len: "length sim = ny" and rows: "\<forall>r \<in> set sim. length r = nx"
    using sh by (simp_all add: is_shape2_def list_all_iff)
  have "(ny - ny_new + 1) div 2 \<le> ny - ny_new" by (rule half_up_le)
  then have le: "(ny - ny_new + 1) div 2 + ny_new \<le> ny" using y by simp
  define cut where "cut = take ny_new (drop ((ny - ny_new + 1) div 2) sim)"
  have lcut: "length cut = ny_new"
    using le len unfolding cut_def by (simp add: min_def) linarith
  have rcut: "\<forall>r \<in> set cut. length r = nx"
    using rows unfolding cut_def by (auto dest!: in_set_takeD in_set_dropD)
  have src: "map (\<lambda>row. take (nx - 0) (drop 0 row))
                (take ((ny - ny_new + 1) div 2 + ny_new - (ny - ny_new + 1) div 2)
                   (drop ((ny - ny_new + 1) div 2) sim)) = cut"
  proof -
    have "map (\<lambda>row. take (nx - 0) (drop 0 row)) cut = map (\<lambda>row. row) cut"
      using rcut by (intro map_cong refl) auto
    then show ?thesis unfolding cut_def by simp
  qed
  have m2: "map2 (\<lambda>orow srow. take ((nx_new - nx + 1) div 2) orow @ srow
                                 @ drop ((nx_new - nx + 1) div 2 + nx) orow)
              (replicate ny_new (replicate nx_new f)) cut
            = map (centre1 nx_new f) cut"
  proof -
    have "map2 (\<lambda>orow srow. take ((nx_new - nx + 1) div 2) orow @ srow
                                 @ drop ((nx_new - nx + 1) div 2 + nx) orow)
              (replicate ny_new (replicate nx_new f)) cut
          = map (\<lambda>srow. take ((nx_new - nx + 1) div 2) (replicate nx_new f) @ srow
                                 @ drop ((nx_new - nx + 1) div 2 + nx) (replicate nx_new f)) cut"
      by (rule map2_replicate_left [OF lcut])
    also have "\<dots> = map (centre1 nx_new f) cut"
      using rcut x by (intro map_cong refl row_pad) auto
    finally show ?thesis .
  qed
  have lm: "length (map (centre1 nx_new f) sim) = ny" using len by simp
  have rhs: "centre_resize ny_new nx_new f sim = map (centre1 nx_new f) cut"
    unfolding centre_resize_def cut_def centre1_cut [OF lm y]
    by (simp add: take_map drop_map)
  show ?thesis
    unfolding src rhs using m2 by simp
qed

lemma assign3_padx_cuty:
  assumes sh: "is_shape3 nz ny nx arr" and y: "ny_new \<le> ny" and x: "nx \<le> nx_new"
  shows "assign3 0 ny_new ((nx_new - nx + 1) div 2) ((nx_new - nx + 1) div 2 + nx)
           (nz, ny_new, nx_new) (replicate nz (replicate ny_new (replicate nx_new f)))
           (nz, min ((ny - ny_new + 1) div 2 + ny_new) ny - min ((ny - ny_new + 1) div 2) ny, nx)
           (slice3 ((ny - ny_new + 1) div 2) ((ny - ny_new + 1) div 2 + ny_new) 0 nx arr)
         = Inr (map (centre_resize ny_new nx_new f) arr)"
proof -
  have len: "length arr = nz" and pl: "\<forall>im \<in> set arr. is_shape2 ny nx im"
    using shape3_planes [OF sh] by simp_all
  have "(ny - ny_new + 1) div 2 \<le> ny - ny_new" by (rule half_up_le)
  then have ly: "(ny - ny_new + 1) div 2 + ny_new \<le> ny" using y by simp
  have "(nx_new - nx + 1) div 2 \<le> nx_new - nx" by (rule half_up_le)
  then have lx: "(nx_new - nx + 1) div 2 + nx \<le> nx_new" using x by simp
  have cy: "min ((ny - ny_new + 1) div 2 + ny_new) ny - min ((ny - ny_new + 1) div 2) ny = ny_new"
    using ly by (simp add: min_def)
  have cx: "min ((nx_new - nx + 1) div 2 + nx) nx_new - min ((nx_new - nx + 1) div 2) nx_new = nx"
    using lx by (simp add: min_def)
  have cy0: "min ny_new ny_new - min 0 ny_new = ny_new" by simp
  have lsl: "length (slice3 ((ny - ny_new + 1) div 2) ((ny - ny_new + 1) div 2 + ny_new) 0 nx arr) = nz"
    using len by (simp add: slice3_def)
  have body: "map2 (\<lambda>oim sim.
                 take 0 oim
                 @ map2 (\<lambda>orow srow. take ((nx_new - nx + 1) div 2) orow @ srow
                                         @ drop ((nx_new - nx + 1) div 2 + nx) orow)
                     (take (ny_new - 0) (drop 0 oim)) sim
                 @ drop ny_new oim)
               (replicate nz (replicate ny_new (replicate nx_new f)))
               (slice3 ((ny - ny_new + 1) div 2) ((ny - ny_new + 1) div 2 + ny_new) 0 nx arr)
             = map (centre_resize ny_new nx_new f) arr"
    unfolding map2_replicate_left [OF lsl]
    unfolding slice3_def map_map comp_def
    using pl by (intro map_cong refl plane_padx_cuty [OF _ y x]) auto
  show ?thesis
    unfolding assign3_def prod.case cy cx cy0 using body by simp
qed

lemma resize_core_padx_cuty:
  fixes fill_val :: "'a::monoid_add"
  assumes sh: "is_shape3 nz ny nx arr" and y: "ny_new \<le> ny" and x: "nx \<le> nx_new"
    and n1: "\<not> (nx \<le> nx_new \<and> ny \<le> ny_new)" and n2: "\<not> (nx_new \<le> nx \<and> ny_new \<le> ny)"
  shows "resize_core (fshift interp) nz ny nx arr ny_new nx_new fill_val 0 0
         = Inr (map (centre_resize ny_new nx_new fill_val) arr)"
proof -
  have a: "\<not> ny \<le> ny_new" using n1 x by simp
  have b: "\<not> nx_new \<le> nx" using n2 y by simp
  show ?thesis
    by (simp only: resize_core_def Let_def fill_value centre_bounds_le [OF y]
        centre_bounds_ge [OF x] prod.case assign3_padx_cuty [OF sh y x] sum.case
        shift_planes_id [OF centred_planes_shape] x y a b simp_thms if_True if_False)
qed

lemma resize_core_centred:
  fixes fill_val :: "'a::monoid_add"
  assumes sh: "is_shape3 nz ny nx arr"
  shows "resize_core (fshift interp) nz ny nx arr ny_new nx_new fill_val 0 0
         = Inr (map (centre_resize ny_new nx_new fill_val) arr)"
proof -
  consider (pad) "nx \<le> nx_new \<and> ny \<le> ny_new"
    | (cut) "\<not> (nx \<le> nx_new \<and> ny \<le> ny_new)" "nx_new \<le> nx \<and> ny_new \<le> ny"
    | (cp) "\<not> (nx \<le> nx_new \<and> ny \<le> ny_new)" "\<not> (nx_new \<le> nx \<and> ny_new \<le> ny)"
        "nx_new \<le> nx \<and> ny \<le> ny_new"
    | (pc) "\<not> (nx \<le> nx_new \<and> ny \<le> ny_new)" "\<not> (nx_new \<le> nx \<and> ny_new \<le> ny)"
        "nx \<le> nx_new \<and> ny_new \<le> ny"
    by linarith
  then show ?thesis
  proof cases
    case pad
    then show ?thesis using resize_core_pad [OF sh] by blast
  next
    case cut
    then show ?thesis using resize_core_cut [OF sh] by blast
  next
    case cp
    then show ?thesis using resize_core_cutx_pady [OF sh] by blast
  next
    case pc
    then show ?thesis using resize_core_padx_cuty [OF sh] by blast
  qed
qed

lemma pad_or_cut_2d_same:
  fixes d :: "('a::monoid_add) image"
  assumes "new_shape_2d ns = Inr (int ny, int nx)"
  shows "pad_or_cut_to_size shift_func (Arr2 ny nx d) ns fill_val None = Inr (Arr3 1 ny nx [d])"
  using assms by (simp add: pad_or_cut_to_size_def)

lemma pad_or_cut_2d_centred:
  fixes d :: "('a::monoid_add) image"
  assumes ns: "new_shape_2d ns = Inr (int ny', int nx')" and sh: "is_shape2 ny nx d"
    and ne: "(ny, nx) \<noteq> (ny', nx')"
  shows "pad_or_cut_to_size (fshift interp) (Arr2 ny nx d) ns fill_val None
         = Inr (Arr2 ny' nx' (centre_resize ny' nx' fill_val d))"
proof -
  have sh3: "is_shape3 (Suc 0) ny nx [d]" using sh by (simp add: is_shape3_def)
  have rc: "resize_core (fshift interp) (Suc 0) ny nx [d] ny' nx' fill_val 0 0
            = Inr [centre_resize ny' nx' fill_val d]"
    using resize_core_centred [OF sh3, of interp ny' nx' fill_val] by simp
  show ?thesis
    using ns ne by (auto simp: pad_or_cut_to_size_def offsets_2d_def rc)
qed


lemma shift_planes_shape:
  "shift_planes sf dx dy ny nx ims = Inr rs \<Longrightarrow> is_shape3 (length ims) ny nx rs"
  by (induction ims arbitrary: rs)
     (auto simp: is_shape3_def split: sum.splits if_splits)

lemma slice3_shape:
  assumes "is_shape3 nz ny nx arr" and "m0 + ny_new \<le> ny" and "n0 + nx_new \<le> nx"
  shows "is_shape3 nz ny_new nx_new (slice3 m0 (m0 + ny_new) n0 (n0 + nx_new) arr)"
proof -
  have len: "length arr = nz" and pl: "\<forall>im \<in> set arr. is_shape2 ny nx im"
    using shape3_planes [OF assms(1)] by simp_all
  have "is_shape2 ny_new nx_new
          (map (\<lambda>row. take (n0 + nx_new - n0) (drop n0 row)) (take (m0 + ny_new - m0) (drop m0 im)))"
    if "im \<in> set arr" for im
  proof -
    have a: "length im = ny" and b: "\<forall>r \<in> set im. length r = nx"
      using pl that by (simp_all add: is_shape2_def list_all_iff)
    have "length (take (m0 + ny_new - m0) (drop m0 im)) = ny_new"
      using a assms(2) by (auto simp: min_def)
    moreover have "length (take (n0 + nx_new - n0) (drop n0 r)) = nx_new"
      if "r \<in> set (take (m0 + ny_new - m0) (drop m0 im))" for r
    proof -
      have "r \<in> set im" using that by (auto dest!: in_set_takeD in_set_dropD)
      then show ?thesis using b assms(3) by (auto simp: min_def)
    qed
    ultimately show ?thesis by (simp add: is_shape2_def list_all_iff)
  qed
  then show ?thesis
    using len by (simp add: is_shape3_def slice3_def list_all_iff)
qed

lemma assign3_length:
  "assign3 m0 m1 n0 n1 (nz, ny, nx) (replicate nz oim) ss src = Inr out \<Longrightarrow> length src = nz
   \<Longrightarrow> length out = nz"
  by (auto simp: assign3_def split: if_splits)

lemma shift_after_assign:
  assumes "assign3 m0 m1 n0 n1 (nz, ny, nx) (replicate nz oim) ss src = Inr out"
    and "length src = nz"
    and "shift_planes sf dx dy ny nx out = Inr res"
  shows "is_shape3 nz ny nx res"
  using shift_planes_shape [OF assms(3)] assign3_length [OF assms(1,2)] by simp

lemma length_slice3: "length (slice3 m0 m1 n0 n1 t) = length t"
  by (simp add: slice3_def)

lemma resize_core_shape:
  fixes fill_val :: "'a::monoid_add"
  assumes sh: "is_shape3 nz ny nx arr"
    and rc: "resize_core sf nz ny nx arr ny_new nx_new fill_val ny_off nx_off = Inr out"
  shows "is_shape3 nz ny_new nx_new out"
proof -
  have len: "length arr = nz" using shape3_planes [OF sh] by simp
  have tmp: "is_shape3 nz ny nx t" if "shift_planes sf dx dy ny nx arr = Inr t" for dx dy t
    using shift_planes_shape [OF that] len by simp
  have ltmp: "length t = nz" if "shift_planes sf dx dy ny nx arr = Inr t" for dx dy t
    using tmp [OF that] by (simp add: is_shape3_def)
  consider (pad) "nx \<le> nx_new \<and> ny \<le> ny_new"
    | (cut) "\<not> (nx \<le> nx_new \<and> ny \<le> ny_new)" "nx_new \<le> nx \<and> ny_new \<le> ny"
    | (cp) "\<not> (nx \<le> nx_new \<and> ny \<le> ny_new)" "\<not> (nx_new \<le> nx \<and> ny_new \<le> ny)"
        "nx_new \<le> nx \<and> ny \<le> ny_new"
    | (pc) "\<not> (nx \<le> nx_new \<and> ny \<le> ny_new)" "\<not> (nx_new \<le> nx \<and> ny_new \<le> ny)"
        "nx \<le> nx_new \<and> ny_new \<le> ny"
    by linarith
  then show ?thesis
  proof cases
    case pad
    then show ?thesis
      using rc len unfolding resize_core_def Let_def
      by (auto split: prod.splits sum.splits elim: shift_after_assign)
  next
    case cut
    have "(ny - ny_new + 1) div 2 \<le> ny - ny_new" by (rule half_up_le)
    then have ly: "(ny - ny_new + 1) div 2 + ny_new \<le> ny" using cut by linarith
    have "(nx - nx_new + 1) div 2 \<le> nx - nx_new" by (rule half_up_le)
    then have lx: "(nx - nx_new + 1) div 2 + nx_new \<le> nx" using cut by linarith
    have bdy: "centre_bounds ny ny_new = ((ny - ny_new + 1) div 2, (ny - ny_new + 1) div 2 + ny_new)"
      using cut by (simp add: centre_bounds_le)
    have bdx: "centre_bounds nx nx_new = ((nx - nx_new + 1) div 2, (nx - nx_new + 1) div 2 + nx_new)"
      using cut by (simp add: centre_bounds_le)
    have out: "(\<exists>t. is_shape3 nz ny nx t \<and> out = slice3 ((ny - ny_new + 1) div 2)
                  ((ny - ny_new + 1) div 2 + ny_new) ((nx - nx_new + 1) div 2)
                  ((nx - nx_new + 1) div 2 + nx_new) t)"
      using rc cut sh tmp
      by (simp only: resize_core_def Let_def bdy bdx prod.case simp_thms if_True if_False
            split: if_splits sum.splits) blast+
    then show ?thesis using slice3_shape [OF _ ly lx] by blast
  next
    case cp
    then have a: "\<not> nx \<le> nx_new" "\<not> ny_new \<le> ny" by simp_all
    show ?thesis
      using rc cp a len ltmp unfolding resize_core_def Let_def
      by (auto simp: length_slice3 split: prod.splits sum.splits if_splits
            elim!: shift_after_assign)
  next
    case pc
    then have a: "\<not> nx_new \<le> nx" "\<not> ny \<le> ny_new" by simp_all
    show ?thesis
      using rc pc a len ltmp unfolding resize_core_def Let_def
      by (auto simp: length_slice3 split: prod.splits sum.splits if_splits
            elim!: shift_after_assign)
  qed
qed












lemma pad_or_cut_2d_shape:
  fixes d :: "('a::monoid_add) image"
  assumes ns: "new_shape_2d ns = Inr (int ny', int nx')" and sh: "is_shape2 ny nx d"
    and ne: "(ny, nx) \<noteq> (ny', nx')"
    and r: "pad_or_cut_to_size sf (Arr2 ny nx d) ns fill_val off = Inr r"
  shows "\<exists>d'. r = Arr2 ny' nx' d' \<and> is_shape2 ny' nx' d'"
proof -
  have sh3: "is_shape3 (Suc 0) ny nx [d]" using sh by (simp add: is_shape3_def)
  obtain oy ox out where o: "offsets_2d off = Inr (oy, ox)"
    and rc: "resize_core sf (Suc 0) ny nx [d] ny' nx' fill_val oy ox = Inr out"
    and res: "(case out of [] \<Rightarrow> Inl IndexError | im # _ \<Rightarrow> Inr (Arr2 ny' nx' im)) = Inr r"
    using r ns ne
    by (auto simp: pad_or_cut_to_size_def split: sum.splits if_splits)
  have "is_shape3 (Suc 0) ny' nx' out"
    by (rule resize_core_shape [OF sh3 rc])
  then obtain im where "out = [im]" "is_shape2 ny' nx' im"
    by (cases out) (auto simp: is_shape3_def)
  then show ?thesis using res by auto
qed

text \<open>
  Claim C10. For a 2-D input whose shape equals the requested shape and no offsets,
  \<open>pad_or_cut_to_size\<close> returns the 3-D array of shape \<open>(1, ny, nx)\<close> holding the same
  values. For a 2-D input of any other shape it returns, with the default \<open>fshift\<close>, the
  2-D array of the requested shape that is the centred padding or cropping of the input; and
  whatever the shift function and the offsets, an array it returns is 2-D and has the
  requested shape.
\<close>

theorem pad_or_cut_noop_rank:
  fixes d :: "('a::monoid_add) image"
  assumes ns: "new_shape_2d ns = Inr (int ny', int nx')" and sh: "is_shape2 ny nx d"
  shows "((ny, nx) = (ny', nx') \<longrightarrow>
            pad_or_cut_to_size sf (Arr2 ny nx d) ns fill_val None = Inr (Arr3 1 ny nx [d]))
       \<and> ((ny, nx) \<noteq> (ny', nx') \<longrightarrow>
            pad_or_cut_to_size (fshift interp) (Arr2 ny nx d) ns fill_val None
              = Inr (Arr2 ny' nx' (centre_resize ny' nx' fill_val d))
            \<and> (\<forall>r. pad_or_cut_to_size sf (Arr2 ny nx d) ns fill_val off = Inr r \<longrightarrow>
                   (\<exists>d'. r = Arr2 ny' nx' d' \<and> is_shape2 ny' nx' d')))"
proof (intro conjI impI allI)
  assume "(ny, nx) = (ny', nx')"
  then show "pad_or_cut_to_size sf (Arr2 ny nx d) ns fill_val None = Inr (Arr3 1 ny nx [d])"
    using pad_or_cut_2d_same [of ns ny nx sf d fill_val] ns by simp
next
  assume "(ny, nx) \<noteq> (ny', nx')"
  then show "pad_or_cut_to_size (fshift interp) (Arr2 ny nx d) ns fill_val None
              = Inr (Arr2 ny' nx' (centre_resize ny' nx' fill_val d))"
    by (rule pad_or_cut_2d_centred [OF ns sh])
next
  fix r
  assume "(ny, nx) \<noteq> (ny', nx')"
    and "pad_or_cut_to_size sf (Arr2 ny nx d) ns fill_val off = Inr r"
  then show "\<exists>d'. r = Arr2 ny' nx' d' \<and> is_shape2 ny' nx' d'"
    by (rule pad_or_cut_2d_shape [OF ns sh])
qed

theorem pad_or_cut_noop_rank_witness:
  "new_shape_2d (ShapeSeq [2, 3]) = Inr (int 2, int 3)
   \<and> is_shape2 2 3 [[1, 2, 3], [4, 5, 6 :: rat]]
   \<and> pad_or_cut_to_size (fshift no_interp) (Arr2 2 3 [[1, 2, 3], [4, 5, 6 :: rat]]) (ShapeSeq [2, 3]) 0 None
       = Inr (Arr3 1 2 3 [[[1, 2, 3], [4, 5, 6]]])
   \<and> new_shape_2d (ShapeSeq [3, 4]) = Inr (int 3, int 4)
   \<and> pad_or_cut_to_size (fshift no_interp) (Arr2 2 3 [[1, 2, 3], [4, 5, 6 :: rat]]) (ShapeSeq [3, 4]) 0 None
       = Inr (Arr2 3 4 [[0, 0, 0, 0], [0, 1, 2, 3], [0, 4, 5, 6]])"
proof -
  have n1: "new_shape_2d (ShapeSeq [2, 3]) = Inr (int 2, int 3)"
    by (simp add: new_shape_2d_def)
  have n2: "new_shape_2d (ShapeSeq [3, 4]) = Inr (int 3, int 4)"
    by (simp add: new_shape_2d_def)
  have s: "is_shape2 2 3 [[1, 2, 3], [4, 5, 6 :: rat]]"
    by (simp add: is_shape2_def)
  have c: "centre_resize 3 4 0 [[1, 2, 3], [4, 5, 6 :: rat]]
           = [[0, 0, 0, 0], [0, 1, 2, 3], [0, 4, 5, 6]]"
    by (simp add: centre_resize_def centre1_def eval_nat_numeral)
  note a = pad_or_cut_noop_rank [where sf="fshift no_interp" and interp=no_interp
      and fill_val=0 and off=None, OF n1 s]
  note b = pad_or_cut_noop_rank [where sf="fshift no_interp" and interp=no_interp
      and fill_val=0 and off=None, OF n2 s]
  show ?thesis
    using a b n1 n2 s c by simp
qed



subsection \<open>Negative drift\<close>

lemma body_drift_positive:
  "EvDriftMod \<in> set (fst (calc_psf_body ops pc m wd cv)) \<Longrightarrow> \<exists>w. wd = Some w \<and> 0 < w"
proof -
  have nosynth: "EvDriftMod \<notin> set (fst (synth_fields ops cf is))" for cf "is"
    by (induction "is") (auto split: sum.splits prod.splits)
  assume a: "EvDriftMod \<in> set (fst (calc_psf_body ops pc m wd cv))"
  show ?thesis
  proof (cases wd)
    case None
    then show ?thesis
      using a nosynth
      by (auto simp: calc_psf_body_def Let_def split: sum.splits prod.splits if_splits option.splits)
        (metis fst_conv)+
  next
    case (Some w)
    show ?thesis
    proof (cases "0 < w")
      case True
      then show ?thesis using Some by simp
    next
      case False
      then show ?thesis
        using a Some nosynth
        by (auto simp: calc_psf_body_def Let_def split: sum.splits prod.splits if_splits option.splits)
          (metis fst_conv)+
    qed
  qed
qed


lemma body_negative:
  assumes "w < 0"
  shows "\<exists>tr e. calc_psf_body ops pc m (Some w) cv = (tr, Inl e)
           \<and> EvDriftMod \<notin> set tr \<and> EvSynth \<notin> set tr
           \<and> ((\<exists>v. op_wfe_field ops cv = Inr v) \<and> (\<exists>v. op_wfe_mask ops cv = Inr v)
                \<longrightarrow> e = AssertionError \<and> tr = [if m then EvMaskMod else EvFieldMod])"
  using assms
  by (auto simp: calc_psf_body_def Let_def split: sum.splits prod.splits option.splits)

lemma points_negative:
  assumes "w < 0" and "pts \<noteq> []"
  shows "\<exists>tr e. calc_psf_points ops pc m (Some w) pts = (tr, Inl e)
           \<and> EvDriftMod \<notin> set tr \<and> EvSynth \<notin> set tr
           \<and> ((\<forall>c. \<exists>v. op_wfe_field ops c = Inr v) \<and> (\<forall>c. \<exists>v. op_wfe_mask ops c = Inr v)
                \<longrightarrow> e = AssertionError \<and> tr = [if m then EvMaskMod else EvFieldMod])"
proof -
  obtain p ps where pts: "pts = p # ps" using assms(2) by (cases pts) auto
  obtain tr e where b: "calc_psf_body ops pc m (Some w) (Some [p]) = (tr, Inl e)"
    "EvDriftMod \<notin> set tr" "EvSynth \<notin> set tr"
    "(\<exists>v. op_wfe_field ops (Some [p]) = Inr v) \<and> (\<exists>v. op_wfe_mask ops (Some [p]) = Inr v)
        \<longrightarrow> e = AssertionError \<and> tr = [if m then EvMaskMod else EvFieldMod]"
    using body_negative [OF assms(1), of ops pc m "Some [p]"] by blast
  show ?thesis
    unfolding pts using b by auto
qed

lemma points_drift_positive:
  "EvDriftMod \<in> set (fst (calc_psf_points ops pc m wd pts)) \<Longrightarrow> \<exists>w. wd = Some w \<and> 0 < w"
proof (induction pts)
  case Nil
  then show ?case by simp
next
  case (Cons p ps)
  obtain tr r where b: "calc_psf_body ops pc m wd (Some [p]) = (tr, r)"
    by (cases "calc_psf_body ops pc m wd (Some [p])")
  obtain tr' r' where c: "calc_psf_points ops pc m wd ps = (tr', r')"
    by (cases "calc_psf_points ops pc m wd ps")
  have "EvDriftMod \<in> set tr \<or> EvDriftMod \<in> set tr'"
    using Cons.prems b c by (auto split: sum.splits)
  then show ?case
  proof
    assume "EvDriftMod \<in> set tr"
    then show ?thesis using body_drift_positive [of ops pc m wd "Some [p]"] b by simp
  next
    assume "EvDriftMod \<in> set tr'"
    then show ?thesis using Cons.IH c by simp
  qed
qed

text \<open>
  Claim C9, as amended. When the coefficients exist, a call with a negative drift ends
  with an exception, calls neither \<open>_coeff_mod_wfe_drift\<close> nor \<open>gen_image_from_coeff\<close>,
  and, when the field and mask modifiers do not raise, the exception is the AssertionError
  and the only step before it is the field (or mask) correction. In every call, the drift
  correction is entered only with a positive drift.
\<close>

theorem negative_drift_rejected:
  assumes "w < 0"
  shows "(\<exists>tr e. calc_psf_from_coeff ops (Some pc) m (Some w) cv bi = (tr, Inl e)
            \<and> EvDriftMod \<notin> set tr \<and> EvSynth \<notin> set tr
            \<and> ((\<forall>c. \<exists>v. op_wfe_field ops c = Inr v) \<and> (\<forall>c. \<exists>v. op_wfe_mask ops c = Inr v)
                 \<longrightarrow> e = AssertionError \<and> tr = [if m then EvMaskMod else EvFieldMod]))
       \<and> (\<forall>pco wd. EvDriftMod \<in> set (fst (calc_psf_from_coeff ops pco m wd cv bi))
             \<longrightarrow> (\<exists>w'. wd = Some w' \<and> 0 < w'))"
proof (intro conjI allI impI)
  show "\<exists>tr e. calc_psf_from_coeff ops (Some pc) m (Some w) cv bi = (tr, Inl e)
            \<and> EvDriftMod \<notin> set tr \<and> EvSynth \<notin> set tr
            \<and> ((\<forall>c. \<exists>v. op_wfe_field ops c = Inr v) \<and> (\<forall>c. \<exists>v. op_wfe_mask ops c = Inr v)
                 \<longrightarrow> e = AssertionError \<and> tr = [if m then EvMaskMod else EvFieldMod])"
  proof (cases cv)
    case None
    then have eq: "calc_psf_from_coeff ops (Some pc) m (Some w) cv bi
                   = calc_psf_body ops pc m (Some w) None"
      by (simp add: calc_psf_from_coeff_def)
    obtain tr e where "calc_psf_body ops pc m (Some w) None = (tr, Inl e)"
      "EvDriftMod \<notin> set tr" "EvSynth \<notin> set tr"
      "(\<exists>v. op_wfe_field ops None = Inr v) \<and> (\<exists>v. op_wfe_mask ops None = Inr v)
         \<longrightarrow> e = AssertionError \<and> tr = [if m then EvMaskMod else EvFieldMod]"
      using body_negative [OF assms, of ops pc m None] by blast
    then show ?thesis unfolding eq by blast
  next
    case (Some pts)
    show ?thesis
    proof (cases "(if length pts \<le> 1 then False else bi)")
      case True
      then have ne: "pts \<noteq> []" by (auto split: if_splits)
      obtain tr e where p: "calc_psf_points ops pc m (Some w) pts = (tr, Inl e)"
        "EvDriftMod \<notin> set tr" "EvSynth \<notin> set tr"
        "(\<forall>c. \<exists>v. op_wfe_field ops c = Inr v) \<and> (\<forall>c. \<exists>v. op_wfe_mask ops c = Inr v)
           \<longrightarrow> e = AssertionError \<and> tr = [if m then EvMaskMod else EvFieldMod]"
        using points_negative [OF assms ne, of ops pc m] by blast
      have "calc_psf_from_coeff ops (Some pc) m (Some w) cv bi = (tr, Inl e)"
        using True Some p(1) by (auto simp: calc_psf_from_coeff_def split: if_splits)
      then show ?thesis using p by blast
    next
      case False
      then have eq: "calc_psf_from_coeff ops (Some pc) m (Some w) cv bi
                 = calc_psf_body ops pc m (Some w) (Some pts)"
        using Some by (auto simp: calc_psf_from_coeff_def split: if_splits)
      obtain tr e where "calc_psf_body ops pc m (Some w) (Some pts) = (tr, Inl e)"
        "EvDriftMod \<notin> set tr" "EvSynth \<notin> set tr"
        "(\<exists>v. op_wfe_field ops (Some pts) = Inr v)
           \<and> (\<exists>v. op_wfe_mask ops (Some pts) = Inr v)
           \<longrightarrow> e = AssertionError \<and> tr = [if m then EvMaskMod else EvFieldMod]"
        using body_negative [OF assms, of ops pc m "Some pts"] by blast
      then show ?thesis unfolding eq by blast
    qed
  qed
next
  fix pco wd
  assume a: "EvDriftMod \<in> set (fst (calc_psf_from_coeff ops pco m wd cv bi))"
  show "\<exists>w'. wd = Some w' \<and> 0 < w'"
  proof (cases pco)
    case None
    then show ?thesis using a by (simp add: calc_psf_from_coeff_def)
  next
    case (Some pc')
    show ?thesis
    proof (cases cv)
      case None
      then show ?thesis
        using a Some body_drift_positive [of ops pc' m wd None]
        by (simp add: calc_psf_from_coeff_def)
    next
      case (Some pts)
      show ?thesis
      proof (cases "(if length pts \<le> 1 then False else bi)")
        case True
        then have "fst (calc_psf_from_coeff ops pco m wd cv bi)
                   = fst (calc_psf_points ops pc' m wd pts)"
          using Some \<open>pco = Some pc'\<close>
          by (auto simp: calc_psf_from_coeff_def split: prod.splits sum.splits if_splits)
        then show ?thesis using a points_drift_positive by metis
      next
        case False
        then have "calc_psf_from_coeff ops pco m wd cv bi = calc_psf_body ops pc' m wd (Some pts)"
          using Some \<open>pco = Some pc'\<close>
          by (auto simp: calc_psf_from_coeff_def split: if_splits)
        then show ?thesis using a body_drift_positive by metis
      qed
    qed
  qed
qed

theorem negative_drift_rejected_witness:
  "(-1 :: rat) < 0
   \<and> calc_psf_from_coeff demo_ops (Some 1) False (Some (-1)) None True = ([EvFieldMod], Inl AssertionError)
   \<and> calc_psf_from_coeff demo_ops (Some 1) True (Some (-1)) (Some [(0, 0), (1, 1)]) True
       = ([EvMaskMod], Inl AssertionError)"
proof -
  have h: "(-1 :: rat) < 0" by simp
  have f: "\<forall>c. \<exists>v. op_wfe_field demo_ops c = Inr v" by (simp add: demo_ops_def)
  have k: "\<forall>c. \<exists>v. op_wfe_mask demo_ops c = Inr v" by (simp add: demo_ops_def)
  note a = negative_drift_rejected [OF h, of demo_ops 1 False None True]
  note b = negative_drift_rejected [OF h, of demo_ops 1 True "Some [(0, 0), (1, 1)]" True]
  show ?thesis using a b f k h by auto
qed

text \<open>
  Claim C9 as stated fails: without coefficients a call with drift \<open>-1\<close> returns
  \<open>None\<close> and raises nothing, and with coefficients the field correction has been
  computed when the assertion fails.
\<close>

theorem negative_drift_no_assertion_counterexample:
  "calc_psf_from_coeff demo_ops None False (Some (-1)) None True = ([], Inr NoResult)
   \<and> calc_psf_from_coeff demo_ops (Some 1) False (Some (-1)) None True
       = ([EvFieldMod], Inl AssertionError)"
  by (simp add: calc_psf_from_coeff_def calc_psf_body_def demo_ops_def)

subsection \<open>Blend of the on-axis and off-axis drift models\<close>














subsection \<open>Grid of mask offsets\<close>

lemma reshape2_concat:
  assumes "\<forall>r \<in> set rows. length r = n"
  shows "reshape2 (length rows) n (concat rows) = rows"
  using assms
proof (induction rows rule: rev_induct)
  case Nil
  then show ?case by (simp add: reshape2_def)
next
  case (snoc r rows)
  have len: "length (concat rows) = length rows * n"
    using snoc.prems by (induction rows) auto
  have a: "map (\<lambda>i. take n (drop (i * n) (concat rows @ r))) [0..<length rows]
           = map (\<lambda>i. take n (drop (i * n) (concat rows))) [0..<length rows]"
  proof (rule map_cong [OF refl])
    fix i assume "i \<in> set [0..<length rows]"
    then have i: "i < length rows" by simp
    then have "i * n + n \<le> length rows * n"
      by (metis Suc_leI mult_Suc mult_le_mono1 add.commute)
    then show "take n (drop (i * n) (concat rows @ r)) = take n (drop (i * n) (concat rows))"
      using len by simp
  qed
  have b: "take n (drop (length rows * n) (concat rows @ r)) = r"
    using len snoc.prems by simp
  show ?case
    using snoc a b by (simp add: reshape2_def)
qed


lemma rev_butlast_nth: "i < length g - 1 \<Longrightarrow> rev (butlast g) ! i = g ! (length g - 2 - i)"
proof -
  assume a: "i < length g - 1"
  then have "rev (butlast g) ! i = butlast g ! (length (butlast g) - Suc i)"
    by (simp add: rev_nth)
  also have "\<dots> = g ! (length (butlast g) - Suc i)"
    using a by (intro nth_butlast) simp
  also have "length (butlast g) - Suc i = length g - 2 - i" by simp
  finally show ?thesis .
qed

lemma combine_nth_top:
  "length a = length c \<Longrightarrow> r < length a \<Longrightarrow> combine_quadrants a b c d ! r = a ! r @ c ! r"
  by (simp add: combine_quadrants_def nth_append)

lemma combine_nth_bottom:
  "length a = length c \<Longrightarrow> length b = length d \<Longrightarrow> r < length b
   \<Longrightarrow> combine_quadrants a b c d ! (length a + r) = b ! r @ d ! r"
  by (simp add: combine_quadrants_def nth_append)

lemma combine_length:
  "length a = length c \<Longrightarrow> length b = length d
   \<Longrightarrow> length (combine_quadrants a b c d) = length a + length b"
  by (simp add: combine_quadrants_def)

lemma rect_nth: "rect ny nx g \<Longrightarrow> i < ny \<Longrightarrow> length (g ! i) = nx"
  by (simp add: rect_def)

lemma quad_lengths:
  assumes "rect ny nx g"
  shows "length (quad_negy f1 g) = ny - 1" "length (quad_negx f2 g) = ny"
    "length (quad_negxy f3 g) = ny - 1"
  using assms by (simp_all add: rect_def quad_negy_def quad_negx_def quad_negxy_def)

lemma quad_negy_nth:
  assumes g: "rect ny nx g" and i: "i < ny - 1"
  shows "quad_negy f g ! i = map f (g ! (ny - 2 - i))"
proof -
  have l: "length g = ny" using g by (simp add: rect_def)
  have "quad_negy f g ! i = map f (rev (butlast g) ! i)"
    using i l by (simp add: quad_negy_def)
  then show ?thesis using rev_butlast_nth [of i g] i l by simp
qed

lemma quad_negx_nth:
  assumes g: "rect ny nx g" and i: "i < ny"
  shows "quad_negx f g ! i = map f (rev (butlast (g ! i)))"
  using assms by (simp add: quad_negx_def rect_def)

lemma quad_negxy_nth:
  assumes g: "rect ny nx g" and i: "i < ny - 1"
  shows "quad_negxy f g ! i = map f (rev (butlast (g ! (ny - 2 - i))))"
proof -
  have l: "length g = ny" using g by (simp add: rect_def)
  have "rev (map butlast (butlast g)) = map butlast (rev (butlast g))"
    by (simp add: rev_map)
  then have "quad_negxy f g ! i = map f (rev (butlast (rev (butlast g) ! i)))"
    using i l by (simp add: quad_negxy_def)
  then show ?thesis using rev_butlast_nth [of i g] i l by simp
qed

lemma quadrants_nth:
  assumes g: "rect ny nx g"
  shows "i < ny \<Longrightarrow> j < nx
         \<Longrightarrow> combine_quadrants g (quad_negy f1 g) (quad_negx f2 g) (quad_negxy f3 g) ! i ! j
             = g ! i ! j"
    and "i < ny - 1 \<Longrightarrow> j < nx
         \<Longrightarrow> combine_quadrants g (quad_negy f1 g) (quad_negx f2 g) (quad_negxy f3 g) ! (ny + i) ! j
             = f1 (g ! (ny - 2 - i) ! j)"
    and "i < ny \<Longrightarrow> j < nx - 1
         \<Longrightarrow> combine_quadrants g (quad_negy f1 g) (quad_negx f2 g) (quad_negxy f3 g) ! i ! (nx + j)
             = f2 (g ! i ! (nx - 2 - j))"
    and "i < ny - 1 \<Longrightarrow> j < nx - 1
         \<Longrightarrow> combine_quadrants g (quad_negy f1 g) (quad_negx f2 g) (quad_negxy f3 g) ! (ny + i) ! (nx + j)
             = f3 (g ! (ny - 2 - i) ! (nx - 2 - j))"
proof -
  have l: "length g = ny" using g by (simp add: rect_def)
  note ql = quad_lengths [OF g]
  have top: "combine_quadrants g (quad_negy f1 g) (quad_negx f2 g) (quad_negxy f3 g) ! i
             = g ! i @ quad_negx f2 g ! i" if "i < ny" for i
    using combine_nth_top [of g "quad_negx f2 g" i] that l ql by simp
  have bot: "combine_quadrants g (quad_negy f1 g) (quad_negx f2 g) (quad_negxy f3 g) ! (ny + i)
             = quad_negy f1 g ! i @ quad_negxy f3 g ! i" if "i < ny - 1" for i
    using combine_nth_bottom [of g "quad_negx f2 g" "quad_negy f1 g" "quad_negxy f3 g" i] that l ql
    by simp
  {
    assume i: "i < ny" and j: "j < nx"
    have "length (g ! i) = nx" using rect_nth [OF g i] .
    then show "combine_quadrants g (quad_negy f1 g) (quad_negx f2 g) (quad_negxy f3 g) ! i ! j
             = g ! i ! j"
      using top [OF i] j by (simp add: nth_append)
  }
  {
    assume i: "i < ny - 1" and j: "j < nx"
    have r: "length (g ! (ny - 2 - i)) = nx" using rect_nth [OF g, of "ny - 2 - i"] i by simp
    then show "combine_quadrants g (quad_negy f1 g) (quad_negx f2 g) (quad_negxy f3 g) ! (ny + i) ! j
             = f1 (g ! (ny - 2 - i) ! j)"
      using bot [OF i] j quad_negy_nth [OF g i, of f1] by (simp add: nth_append)
  }
  {
    assume i: "i < ny" and j: "j < nx - 1"
    have r: "length (g ! i) = nx" using rect_nth [OF g i] .
    have "rev (butlast (g ! i)) ! j = g ! i ! (nx - 2 - j)"
      using rev_butlast_nth [of j "g ! i"] r j by simp
    then show "combine_quadrants g (quad_negy f1 g) (quad_negx f2 g) (quad_negxy f3 g) ! i ! (nx + j)
             = f2 (g ! i ! (nx - 2 - j))"
      using top [OF i] j r quad_negx_nth [OF g i, of f2] by (simp add: nth_append)
  }
  {
    assume i: "i < ny - 1" and j: "j < nx - 1"
    have r: "length (g ! (ny - 2 - i)) = nx" using rect_nth [OF g, of "ny - 2 - i"] i by simp
    have "rev (butlast (g ! (ny - 2 - i))) ! j = g ! (ny - 2 - i) ! (nx - 2 - j)"
      using rev_butlast_nth [of j "g ! (ny - 2 - i)"] r j by simp
    then show "combine_quadrants g (quad_negy f1 g) (quad_negx f2 g) (quad_negxy f3 g) ! (ny + i) ! (nx + j)
             = f3 (g ! (ny - 2 - i) ! (nx - 2 - j))"
      using bot [OF i] j r quad_negy_nth [OF g i, of f1] quad_negxy_nth [OF g i, of f3]
      by (simp add: nth_append)
  }
qed


lemma rect_replicate_rows: "rect ny (length xs) (replicate ny xs)"
  by (simp add: rect_def)

lemma rect_replicate_cols: "rect (length ys) nx (map (replicate nx) ys)"
  by (auto simp: rect_def)

lemma stitch_xoff_meshgrid:
  "stitch_xoff (replicate ny xs)
   = combine_quadrants (replicate ny xs) (quad_negy (\<lambda>x. x) (replicate ny xs))
       (quad_negx uminus (replicate ny xs)) (quad_negxy uminus (replicate ny xs))"
  by (simp add: stitch_xoff_def quad_negy_def quad_negx_def quad_negxy_def neg_grid_def
      butlast_conv_take rev_map)

lemma stitch_yoff_meshgrid:
  "stitch_yoff (map (replicate nx) ys)
   = combine_quadrants (map (replicate nx) ys) (quad_negy uminus (map (replicate nx) ys))
       (quad_negx (\<lambda>y. y) (map (replicate nx) ys)) (quad_negxy uminus (map (replicate nx) ys))"
proof -
  have row: "rev (butlast (replicate nx y)) = butlast (replicate nx y)" for y :: rat
    by (simp add: butlast_conv_take)
  show ?thesis
    by (simp add: stitch_yoff_def quad_negy_def quad_negx_def quad_negxy_def neg_grid_def rev_map
        comp_def row)
qed

lemma xy_list_rows:
  "reshape2 (length ys) (length xs) (map fst (xy_list xs ys)) = replicate (length ys) xs"
  "reshape2 (length ys) (length xs) (map snd (xy_list xs ys)) = map (replicate (length xs)) ys"
proof -
  have f: "map fst (xy_list xs ys) = concat (replicate (length ys) xs)"
    by (induction ys) (simp_all add: xy_list_def comp_def)
  have s: "map snd (xy_list xs ys) = concat (map (replicate (length xs)) ys)"
    by (induction ys) (simp_all add: xy_list_def comp_def map_replicate_const)
  show "reshape2 (length ys) (length xs) (map fst (xy_list xs ys)) = replicate (length ys) xs"
    using reshape2_concat [of "replicate (length ys) xs" "length xs"] f by simp
  show "reshape2 (length ys) (length xs) (map snd (xy_list xs ys)) = map (replicate (length xs)) ys"
    using reshape2_concat [of "map (replicate (length xs)) ys" "length xs"] s by simp
qed


lemma checked_cube_Inr:
  "checked_cube ncf npix r = Inr cf \<Longrightarrow> r = Inr cf \<and> is_shape3 ncf npix npix cf"
  by (auto simp: checked_cube_def split: sum.splits if_splits)

lemma first_pass_nodes:
  "first_pass gen sgd ncf npix nodes = Inr (cfs, c0) \<Longrightarrow>
     length cfs = length nodes
     \<and> (\<forall>k < length nodes.
           (sgd (nodes ! k) \<longrightarrow> cfs ! k = zero_cube ncf npix)
           \<and> (\<not> sgd (nodes ! k) \<longrightarrow>
                gen (fst (nodes ! k)) (snd (nodes ! k)) = Inr (cfs ! k)
                \<and> is_shape3 ncf npix npix (cfs ! k)))
     \<and> (\<forall>c. c0 = Some c \<longrightarrow>
           gen 0 0 = Inr c \<and> is_shape3 ncf npix npix c \<and> \<not> sgd (0, 0) \<and> (0, 0) \<in> set nodes)"
proof (induction nodes arbitrary: cfs c0)
  case Nil
  then show ?case by simp
next
  case (Cons n nodes)
  obtain xv yv where n: "n = (xv, yv)" by (cases n)
  show ?case
  proof (cases "sgd (xv, yv)")
    case True
    then obtain cfs' where r: "first_pass gen sgd ncf npix nodes = Inr (cfs', c0)"
      and c: "cfs = zero_cube ncf npix # cfs'"
      using Cons.prems n by (auto split: sum.splits)
    note ih = Cons.IH [OF r]
    have "\<forall>k < length (n # nodes).
           (sgd ((n # nodes) ! k) \<longrightarrow> cfs ! k = zero_cube ncf npix)
           \<and> (\<not> sgd ((n # nodes) ! k) \<longrightarrow>
                gen (fst ((n # nodes) ! k)) (snd ((n # nodes) ! k)) = Inr (cfs ! k)
                \<and> is_shape3 ncf npix npix (cfs ! k))"
    proof (intro allI impI)
      fix k assume "k < length (n # nodes)"
      then show "(sgd ((n # nodes) ! k) \<longrightarrow> cfs ! k = zero_cube ncf npix)
           \<and> (\<not> sgd ((n # nodes) ! k) \<longrightarrow>
                gen (fst ((n # nodes) ! k)) (snd ((n # nodes) ! k)) = Inr (cfs ! k)
                \<and> is_shape3 ncf npix npix (cfs ! k))"
        using ih c True n by (cases k) auto
    qed
    then show ?thesis using ih c by auto
  next
    case False
    then obtain cf cfs' later where g: "checked_cube ncf npix (gen xv yv) = Inr cf"
      and r: "first_pass gen sgd ncf npix nodes = Inr (cfs', later)"
      and c: "cfs = cf # cfs'"
      and z: "c0 = (case later of Some c \<Rightarrow> Some c
                    | None \<Rightarrow> if xv = 0 \<and> yv = 0 then Some cf else None)"
      using Cons.prems n by (auto split: sum.splits)
    note ih = Cons.IH [OF r]
    note gc = checked_cube_Inr [OF g]
    have "\<forall>k < length (n # nodes).
           (sgd ((n # nodes) ! k) \<longrightarrow> cfs ! k = zero_cube ncf npix)
           \<and> (\<not> sgd ((n # nodes) ! k) \<longrightarrow>
                gen (fst ((n # nodes) ! k)) (snd ((n # nodes) ! k)) = Inr (cfs ! k)
                \<and> is_shape3 ncf npix npix (cfs ! k))"
    proof (intro allI impI)
      fix k assume "k < length (n # nodes)"
      then show "(sgd ((n # nodes) ! k) \<longrightarrow> cfs ! k = zero_cube ncf npix)
           \<and> (\<not> sgd ((n # nodes) ! k) \<longrightarrow>
                gen (fst ((n # nodes) ! k)) (snd ((n # nodes) ! k)) = Inr (cfs ! k)
                \<and> is_shape3 ncf npix npix (cfs ! k))"
        using ih c False n gc by (cases k) auto
    qed
    moreover have "\<forall>c. c0 = Some c \<longrightarrow>
           gen 0 0 = Inr c \<and> is_shape3 ncf npix npix c \<and> \<not> sgd (0, 0) \<and> (0, 0) \<in> set (n # nodes)"
      using ih z gc False n by (auto split: option.splits if_splits)
    ultimately show ?thesis using ih c by auto
  qed
qed

lemma reshape2_rect:
  "length flat = ny * nx \<Longrightarrow> rect ny nx (reshape2 ny nx flat)"
proof -
  assume l: "length flat = ny * nx"
  have "length (take nx (drop (i * nx) flat)) = nx" if "i < ny" for i
  proof -
    have "i * nx + nx \<le> ny * nx"
      using that by (metis Suc_leI mult_Suc mult_le_mono1 add.commute)
    then show ?thesis using l by simp
  qed
  then show ?thesis by (auto simp: rect_def reshape2_def)
qed

lemma reshape2_nth:
  assumes "length flat = ny * nx" and "i < ny" and "j < nx"
  shows "reshape2 ny nx flat ! i ! j = flat ! (i * nx + j)"
proof -
  have "i * nx + nx \<le> ny * nx"
    using assms(2) by (metis Suc_leI mult_Suc mult_le_mono1 add.commute)
  then have "i * nx + j < length flat" using assms by simp
  then show ?thesis using assms by (simp add: reshape2_def)
qed

lemma length_xy_list: "length (xy_list xs ys) = length ys * length xs"
  by (induction ys) (simp_all add: xy_list_def)

lemma xy_list_nth:
  assumes "i < length ys" and "j < length xs"
  shows "xy_list xs ys ! (i * length xs + j) = (xs ! j, ys ! i)"
  using assms
proof (induction ys arbitrary: i)
  case Nil
  then show ?case by simp
next
  case (Cons y ys)
  show ?case
  proof (cases i)
    case 0
    then show ?thesis using Cons.prems by (simp add: xy_list_def nth_append)
  next
    case (Suc i')
    then have "xy_list xs ys ! (i' * length xs + j) = (xs ! j, ys ! i')"
      using Cons by simp
    then show ?thesis
      using Suc by (simp add: xy_list_def nth_append)
  qed
qed


lemma grid_assign_rect:
  assumes "rect R C X" and "rect R C Y" and "rect R C G"
  shows "rect R C (grid_assign X Y G xv yv new)"
proof -
  have l: "length X = R" "length Y = R" "length G = R"
    using assms by (simp_all add: rect_def)
  have "length (map (\<lambda>(x, y, cf). if x = xv \<and> y = yv then new else cf) (zip xr (zip yr cr))) = C"
    if "(xr, yr, cr) \<in> set (zip X (zip Y G))" for xr yr cr
  proof -
    have "xr \<in> set X" "(yr, cr) \<in> set (zip Y G)"
      using that by (auto dest: set_zip_leftD set_zip_rightD)
    then have "xr \<in> set X" "yr \<in> set Y" "cr \<in> set G"
      by (auto dest: set_zip_leftD set_zip_rightD)
    then show ?thesis using assms by (simp add: rect_def)
  qed
  then show ?thesis
    using l by (auto simp: rect_def grid_assign_def)
qed

lemma grid_assign_nth:
  assumes "rect R C X" and "rect R C Y" and "rect R C G" and "r < R" and "c < C"
  shows "grid_assign X Y G xv yv new ! r ! c
         = (if X ! r ! c = xv \<and> Y ! r ! c = yv then new else G ! r ! c)"
proof -
  have l: "length X = R" "length Y = R" "length G = R"
    using assms by (simp_all add: rect_def)
  have rows: "length (X ! r) = C" "length (Y ! r) = C" "length (G ! r) = C"
    using assms by (simp_all add: rect_nth)
  show ?thesis
    using l rows assms(4,5) by (simp add: grid_assign_def)
qed

lemma sgd_pass_nodes:
  assumes "rect R C X" and "rect R C Y" and "rect R C G"
    and "sgd_pass gen ncf npix coeff0 X Y G nodes = Inr G'"
  shows "rect R C G'
       \<and> (\<forall>r < R. \<forall>c < C.
             ((X ! r ! c, Y ! r ! c) \<in> set nodes \<longrightarrow>
                (\<exists>cf. gen (X ! r ! c) (Y ! r ! c) = Inr cf \<and> is_shape3 ncf npix npix cf
                      \<and> G' ! r ! c = cube_sub cf coeff0))
             \<and> ((X ! r ! c, Y ! r ! c) \<notin> set nodes \<longrightarrow> G' ! r ! c = G ! r ! c))"
  using assms(3,4)
proof (induction nodes arbitrary: G)
  case Nil
  then show ?case by simp
next
  case (Cons n nodes)
  obtain xv yv where n: "n = (xv, yv)" by (cases n)
  obtain cf where g: "checked_cube ncf npix (gen xv yv) = Inr cf"
    and r: "sgd_pass gen ncf npix coeff0 X Y (grid_assign X Y G xv yv (cube_sub cf coeff0)) nodes
            = Inr G'"
    using Cons.prems(2) n by (auto split: sum.splits)
  note gc = checked_cube_Inr [OF g]
  have rg: "rect R C (grid_assign X Y G xv yv (cube_sub cf coeff0))"
    by (rule grid_assign_rect [OF assms(1,2) Cons.prems(1)])
  note ih = Cons.IH [OF rg r]
  have "((X ! r ! c, Y ! r ! c) \<in> set (n # nodes) \<longrightarrow>
                (\<exists>cf. gen (X ! r ! c) (Y ! r ! c) = Inr cf \<and> is_shape3 ncf npix npix cf
                      \<and> G' ! r ! c = cube_sub cf coeff0))
             \<and> ((X ! r ! c, Y ! r ! c) \<notin> set (n # nodes) \<longrightarrow> G' ! r ! c = G ! r ! c)"
    if rc: "r < R" "c < C" for r c
  proof (cases "(X ! r ! c, Y ! r ! c) \<in> set nodes")
    case True
    then show ?thesis using ih rc by auto
  next
    case False
    then have e: "G' ! r ! c = grid_assign X Y G xv yv (cube_sub cf coeff0) ! r ! c"
      using ih rc by auto
    show ?thesis
      using False e gc n
        grid_assign_nth [OF assms(1,2) Cons.prems(1) rc, of xv yv "cube_sub cf coeff0"]
      by auto
  qed
  then show ?case using ih by blast
qed


lemma rect_combine:
  assumes g: "rect ny nx g"
  shows "rect (ny + (ny - 1)) (nx + (nx - 1))
           (combine_quadrants g (quad_negy f1 g) (quad_negx f2 g) (quad_negxy f3 g))"
proof -
  have l: "length g = ny" using g by (simp add: rect_def)
  note ql = quad_lengths [OF g]
  have len: "length (combine_quadrants g (quad_negy f1 g) (quad_negx f2 g) (quad_negxy f3 g))
             = ny + (ny - 1)"
    using combine_length [of g "quad_negx f2 g" "quad_negy f1 g" "quad_negxy f3 g"] l ql by simp
  have row: "length (combine_quadrants g (quad_negy f1 g) (quad_negx f2 g) (quad_negxy f3 g) ! r)
             = nx + (nx - 1)" if r: "r < ny + (ny - 1)" for r
  proof (cases "r < ny")
    case True
    have "combine_quadrants g (quad_negy f1 g) (quad_negx f2 g) (quad_negxy f3 g) ! r
          = g ! r @ quad_negx f2 g ! r"
      using combine_nth_top [of g "quad_negx f2 g" r] True l ql by simp
    then show ?thesis
      using True rect_nth [OF g True] quad_negx_nth [OF g True, of f2] by simp
  next
    case False
    then obtain i where i: "r = ny + i" "i < ny - 1"
      using r by (metis add_diff_inverse_nat nat_add_left_cancel_less)
    have k: "ny - 2 - i < ny" using i by simp
    have "combine_quadrants g (quad_negy f1 g) (quad_negx f2 g) (quad_negxy f3 g) ! (ny + i)
          = quad_negy f1 g ! i @ quad_negxy f3 g ! i"
      using combine_nth_bottom [of g "quad_negx f2 g" "quad_negy f1 g" "quad_negxy f3 g" i] i l ql
      by simp
    then show ?thesis
      using i rect_nth [OF g k] quad_negy_nth [OF g i(2), of f1] quad_negxy_nth [OF g i(2), of f3]
      by simp
  qed
  show ?thesis
    unfolding rect_def using len row by (auto simp: in_set_conv_nth)
qed

lemma grid_coords_member:
  assumes "rect R C X" and "rect R C Y" and "r < R" and "c < C"
  shows "(X ! r ! c, Y ! r ! c) \<in> set (concat (map2 zip X Y))"
proof -
  have l: "length X = R" "length Y = R" using assms by (simp_all add: rect_def)
  have rows: "length (X ! r) = C" "length (Y ! r) = C" using assms by (simp_all add: rect_nth)
  have a: "zip (X ! r) (Y ! r) \<in> set (map2 zip X Y)"
  proof -
    have "map2 zip X Y ! r = zip (X ! r) (Y ! r)" using l assms(3) by simp
    moreover have "r < length (map2 zip X Y)" using l assms(3) by simp
    ultimately show ?thesis by (metis nth_mem)
  qed
  have b: "(X ! r ! c, Y ! r ! c) \<in> set (zip (X ! r) (Y ! r))"
  proof -
    have "zip (X ! r) (Y ! r) ! c = (X ! r ! c, Y ! r ! c)" using rows assms(4) by simp
    moreover have "c < length (zip (X ! r) (Y ! r))" using rows assms(4) by simp
    ultimately show ?thesis by (metis nth_mem)
  qed
  show ?thesis
    unfolding set_concat using a b by blast
qed

lemma sgd_pass_final:
  assumes X: "rect R C X" and Y: "rect R C Y" and S: "rect R C S"
    and p: "sgd_pass gen ncf npix coeff0 X Y S (filter sgd (concat (map2 zip X Y))) = Inr cf"
    and rc: "r < R" "c < C"
  shows "\<not> sgd (X ! r ! c, Y ! r ! c) \<Longrightarrow> cf ! r ! c = S ! r ! c"
    and "sgd (X ! r ! c, Y ! r ! c) \<Longrightarrow>
         \<exists>cube. gen (X ! r ! c) (Y ! r ! c) = Inr cube \<and> is_shape3 ncf npix npix cube
               \<and> cf ! r ! c = cube_sub cube coeff0"
proof -
  note sp = sgd_pass_nodes [OF X Y S p]
  note mem = grid_coords_member [OF X Y rc]
  {
    assume "\<not> sgd (X ! r ! c, Y ! r ! c)"
    then have "(X ! r ! c, Y ! r ! c) \<notin> set (filter sgd (concat (map2 zip X Y)))" by simp
    then show "cf ! r ! c = S ! r ! c" using sp rc by blast
  }
  {
    assume "sgd (X ! r ! c, Y ! r ! c)"
    then have "(X ! r ! c, Y ! r ! c) \<in> set (filter sgd (concat (map2 zip X Y)))"
      using mem by simp
    then show "\<exists>cube. gen (X ! r ! c) (Y ! r ! c) = Inr cube \<and> is_shape3 ncf npix npix cube
               \<and> cf ! r ! c = cube_sub cube coeff0"
      using sp rc by blast
  }
qed


lemma gen_wfemask_coeff_Inr:
  assumes "gen_wfemask_coeff gen nd_rotate c large_grid ncf npix = Inr (Some (cf, X, Y))"
  obtains xs ys iwa bar b cfs coeff0 S where
    "is_coron c"
    "mask_offsets c large_grid = Inr (xs, ys, iwa, bar)"
    "wfemask_branch c large_grid = Inr b"
    "first_pass gen (ind_sgd iwa bar) ncf npix (xy_list xs ys) = Inr (cfs, Some coeff0)"
    "stitch nd_rotate c b (replicate (length ys) xs) (map (replicate (length xs)) ys)
       (reshape2 (length ys) (length xs) (map (\<lambda>cf. cube_sub cf coeff0) cfs)) = (X, Y, S)"
    "sgd_pass gen ncf npix coeff0 X Y S
       (filter (ind_sgd iwa (branch_bar b)) (concat (map2 zip X Y))) = Inr cf"
proof -
  from assms have ic: "is_coron c"
    by (auto simp: gen_wfemask_coeff_def split: if_splits)
  from assms ic obtain xs ys iwa bar where mo: "mask_offsets c large_grid = Inr (xs, ys, iwa, bar)"
    by (auto simp: gen_wfemask_coeff_def split: sum.splits)
  from assms ic mo obtain cfs coeff0 where
    fp: "first_pass gen (ind_sgd iwa bar) ncf npix (xy_list xs ys) = Inr (cfs, Some coeff0)"
    by (auto simp: gen_wfemask_coeff_def Let_def split: sum.splits option.splits prod.splits)
  from assms ic mo fp obtain b where b: "wfemask_branch c large_grid = Inr b"
    by (auto simp: gen_wfemask_coeff_def Let_def split: sum.splits)
  obtain X' Y' S where
    st: "stitch nd_rotate c b (replicate (length ys) xs) (map (replicate (length xs)) ys)
       (reshape2 (length ys) (length xs) (map (\<lambda>cf. cube_sub cf coeff0) cfs)) = (X', Y', S)"
    by (metis prod_cases3)
  from assms ic mo b fp st have
    "(case sgd_pass gen ncf npix coeff0 X' Y' S
             (filter (ind_sgd iwa (branch_bar b)) (concat (map2 zip X' Y'))) of
        Inl e \<Rightarrow> Inl e
      | Inr cf_final \<Rightarrow> Inr (Some (cf_final, X', Y'))) = Inr (Some (cf, X, Y))"
    by (simp add: gen_wfemask_coeff_def Let_def xy_list_rows)
  then have "X' = X" "Y' = Y"
    "sgd_pass gen ncf npix coeff0 X Y S
       (filter (ind_sgd iwa (branch_bar b)) (concat (map2 zip X Y))) = Inr cf"
    by (auto split: sum.splits)
  with ic mo b fp st that show thesis by blast
qed

lemma ind_sgd_neg:
  "ind_sgd iwa bar (x, - y) = ind_sgd iwa bar (x, y)"
  "ind_sgd iwa bar (- x, y) = ind_sgd iwa bar (x, y)"
  "ind_sgd iwa bar (- x, - y) = ind_sgd iwa bar (x, y)"
  by (simp_all add: ind_sgd_def Let_def)

lemma branch_bar_offsets:
  assumes "mask_offsets c large_grid = Inr (xs, ys, iwa, bar)"
    and "wfemask_branch c large_grid = Inr b"
  shows "branch_bar b = bar"
  using assms
  by (auto simp: mask_offsets_def wfemask_branch_def branch_bar_def Let_def
      split: option.splits inst_name.splits sum.splits if_splits prod.splits)



lemma stitched_coords:
  assumes lx: "length xs = nx" and ly: "length ys = ny"
  defines "X \<equiv> stitch_xoff (replicate ny xs)"
    and "Y \<equiv> stitch_yoff (map (replicate nx) ys)"
  shows "rect (ny + (ny - 1)) (nx + (nx - 1)) X"
    and "rect (ny + (ny - 1)) (nx + (nx - 1)) Y"
    and "i < ny \<Longrightarrow> j < nx \<Longrightarrow> X ! i ! j = xs ! j \<and> Y ! i ! j = ys ! i"
    and "i < ny - 1 \<Longrightarrow> j < nx
         \<Longrightarrow> X ! (ny + i) ! j = xs ! j \<and> Y ! (ny + i) ! j = - (ys ! (ny - 2 - i))"
    and "i < ny \<Longrightarrow> j < nx - 1
         \<Longrightarrow> X ! i ! (nx + j) = - (xs ! (nx - 2 - j)) \<and> Y ! i ! (nx + j) = ys ! i"
    and "i < ny - 1 \<Longrightarrow> j < nx - 1
         \<Longrightarrow> X ! (ny + i) ! (nx + j) = - (xs ! (nx - 2 - j))
             \<and> Y ! (ny + i) ! (nx + j) = - (ys ! (ny - 2 - i))"
proof -
  have rx: "rect ny nx (replicate ny xs)" using rect_replicate_rows [of ny xs] lx by simp
  have ry: "rect ny nx (map (replicate nx) ys)" using rect_replicate_cols [of ys nx] ly by simp
  have X: "X = combine_quadrants (replicate ny xs) (quad_negy (\<lambda>x. x) (replicate ny xs))
       (quad_negx uminus (replicate ny xs)) (quad_negxy uminus (replicate ny xs))"
    unfolding X_def by (rule stitch_xoff_meshgrid)
  have Y: "Y = combine_quadrants (map (replicate nx) ys) (quad_negy uminus (map (replicate nx) ys))
       (quad_negx (\<lambda>y. y) (map (replicate nx) ys)) (quad_negxy uminus (map (replicate nx) ys))"
    unfolding Y_def by (rule stitch_yoff_meshgrid)
  show "rect (ny + (ny - 1)) (nx + (nx - 1)) X" unfolding X by (rule rect_combine [OF rx])
  show "rect (ny + (ny - 1)) (nx + (nx - 1)) Y" unfolding Y by (rule rect_combine [OF ry])
  have x0: "replicate ny xs ! a ! b = xs ! b" if "a < ny" for a b using that by simp
  have y0: "map (replicate nx) ys ! a ! b = ys ! a" if "a < ny" "b < nx" for a b
    using that ly by simp
  {
    assume i: "i < ny" and j: "j < nx"
    show "X ! i ! j = xs ! j \<and> Y ! i ! j = ys ! i"
      unfolding X Y using quadrants_nth(1) [OF rx i j] quadrants_nth(1) [OF ry i j] x0 [OF i]
        y0 [OF i j] by simp
  }
  {
    assume i: "i < ny - 1" and j: "j < nx"
    have k: "ny - 2 - i < ny" using i by simp
    show "X ! (ny + i) ! j = xs ! j \<and> Y ! (ny + i) ! j = - (ys ! (ny - 2 - i))"
      unfolding X Y using quadrants_nth(2) [OF rx i j] quadrants_nth(2) [OF ry i j] x0 [OF k]
        y0 [OF k j] by simp
  }
  {
    assume i: "i < ny" and j: "j < nx - 1"
    have k: "nx - 2 - j < nx" using j by simp
    show "X ! i ! (nx + j) = - (xs ! (nx - 2 - j)) \<and> Y ! i ! (nx + j) = ys ! i"
      unfolding X Y using quadrants_nth(3) [OF rx i j] quadrants_nth(3) [OF ry i j] x0 [OF i]
        y0 [OF i k] by simp
  }
  {
    assume i: "i < ny - 1" and j: "j < nx - 1"
    have k: "ny - 2 - i < ny" using i by simp
    have l: "nx - 2 - j < nx" using j by simp
    show "X ! (ny + i) ! (nx + j) = - (xs ! (nx - 2 - j))
             \<and> Y ! (ny + i) ! (nx + j) = - (ys ! (ny - 2 - i))"
      unfolding X Y using quadrants_nth(4) [OF rx i j] quadrants_nth(4) [OF ry i j] x0 [OF k]
        y0 [OF k l] by simp
  }
qed


lemma quad_final:
  assumes G0: "rect ny nx G0" and lx: "length xs = nx" and ly: "length ys = ny"
    and X: "X = stitch_xoff (replicate ny xs)" and Y: "Y = stitch_yoff (map (replicate nx) ys)"
    and S: "S = combine_quadrants G0 (quad_negy f1 G0) (quad_negx f2 G0) (quad_negxy f3 G0)"
    and p: "sgd_pass gen ncf npix coeff0 X Y S
              (filter (ind_sgd iwa bar) (concat (map2 zip X Y))) = Inr cf"
  shows "i < ny - 1 \<Longrightarrow> j < nx \<Longrightarrow> \<not> ind_sgd iwa bar (X ! (ny + i) ! j, Y ! (ny + i) ! j)
         \<Longrightarrow> cf ! (ny + i) ! j = f1 (cf ! (ny - 2 - i) ! j)"
    and "i < ny \<Longrightarrow> j < nx - 1 \<Longrightarrow> \<not> ind_sgd iwa bar (X ! i ! (nx + j), Y ! i ! (nx + j))
         \<Longrightarrow> cf ! i ! (nx + j) = f2 (cf ! i ! (nx - 2 - j))"
    and "i < ny - 1 \<Longrightarrow> j < nx - 1
         \<Longrightarrow> \<not> ind_sgd iwa bar (X ! (ny + i) ! (nx + j), Y ! (ny + i) ! (nx + j))
         \<Longrightarrow> cf ! (ny + i) ! (nx + j) = f3 (cf ! (ny - 2 - i) ! (nx - 2 - j))"
    and "i < ny \<Longrightarrow> j < nx \<Longrightarrow> \<not> ind_sgd iwa bar (xs ! j, ys ! i) \<Longrightarrow> cf ! i ! j = G0 ! i ! j"
proof -
  note sc = stitched_coords [OF lx ly, folded X Y]
  have rS: "rect (ny + (ny - 1)) (nx + (nx - 1)) S" unfolding S by (rule rect_combine [OF G0])
  note fin = sgd_pass_final(1) [OF sc(1) sc(2) rS p]
  have first: "cf ! a ! b = G0 ! a ! b"
    if a: "a < ny" and b: "b < nx" and n: "\<not> ind_sgd iwa bar (xs ! b, ys ! a)" for a b
  proof -
    have "cf ! a ! b = S ! a ! b"
      using fin [of a b] a b n sc(3) [OF a b] by simp
    then show ?thesis unfolding S using quadrants_nth(1) [OF G0 a b] by simp
  qed
  show "cf ! i ! j = G0 ! i ! j" if "i < ny" "j < nx" "\<not> ind_sgd iwa bar (xs ! j, ys ! i)"
    using first that by simp
  {
    assume i: "i < ny - 1" and j: "j < nx"
      and n: "\<not> ind_sgd iwa bar (X ! (ny + i) ! j, Y ! (ny + i) ! j)"
    have k: "ny - 2 - i < ny" using i by simp
    have n': "\<not> ind_sgd iwa bar (xs ! j, ys ! (ny - 2 - i))"
      using n sc(4) [OF i j] by (simp add: ind_sgd_neg)
    have "cf ! (ny + i) ! j = S ! (ny + i) ! j"
      using fin [of "ny + i" j] i j n by simp
    also have "\<dots> = f1 (G0 ! (ny - 2 - i) ! j)"
      unfolding S using quadrants_nth(2) [OF G0 i j] by simp
    also have "\<dots> = f1 (cf ! (ny - 2 - i) ! j)" using first [OF k j n'] by simp
    finally show "cf ! (ny + i) ! j = f1 (cf ! (ny - 2 - i) ! j)" .
  }
  {
    assume i: "i < ny" and j: "j < nx - 1"
      and n: "\<not> ind_sgd iwa bar (X ! i ! (nx + j), Y ! i ! (nx + j))"
    have k: "nx - 2 - j < nx" using j by simp
    have n': "\<not> ind_sgd iwa bar (xs ! (nx - 2 - j), ys ! i)"
      using n sc(5) [OF i j] by (simp add: ind_sgd_neg)
    have "cf ! i ! (nx + j) = S ! i ! (nx + j)"
      using fin [of i "nx + j"] i j n by simp
    also have "\<dots> = f2 (G0 ! i ! (nx - 2 - j))"
      unfolding S using quadrants_nth(3) [OF G0 i j] by simp
    also have "\<dots> = f2 (cf ! i ! (nx - 2 - j))" using first [OF i k n'] by simp
    finally show "cf ! i ! (nx + j) = f2 (cf ! i ! (nx - 2 - j))" .
  }
  {
    assume i: "i < ny - 1" and j: "j < nx - 1"
      and n: "\<not> ind_sgd iwa bar (X ! (ny + i) ! (nx + j), Y ! (ny + i) ! (nx + j))"
    have k: "ny - 2 - i < ny" using i by simp
    have l: "nx - 2 - j < nx" using j by simp
    have n': "\<not> ind_sgd iwa bar (xs ! (nx - 2 - j), ys ! (ny - 2 - i))"
      using n sc(6) [OF i j] by (simp add: ind_sgd_neg)
    have "cf ! (ny + i) ! (nx + j) = S ! (ny + i) ! (nx + j)"
      using fin [of "ny + i" "nx + j"] i j n by simp
    also have "\<dots> = f3 (G0 ! (ny - 2 - i) ! (nx - 2 - j))"
      unfolding S using quadrants_nth(4) [OF G0 i j] by simp
    also have "\<dots> = f3 (cf ! (ny - 2 - i) ! (nx - 2 - j))" using first [OF k l n'] by simp
    finally show "cf ! (ny + i) ! (nx + j) = f3 (cf ! (ny - 2 - i) ! (nx - 2 - j))" .
  }
qed

lemma half_final:
  assumes G0: "rect ny nx G0" and lx: "length xs = nx" and ly: "length ys = ny"
    and X: "X = replicate ny xs @ butlast (replicate ny xs)"
    and Y: "Y = map (replicate nx) ys @ neg_grid (rev (butlast (map (replicate nx) ys)))"
    and S: "S = G0 @ quad_negy f1 G0"
    and p: "sgd_pass gen ncf npix coeff0 X Y S
              (filter (ind_sgd iwa bar) (concat (map2 zip X Y))) = Inr cf"
  shows "rect (ny + (ny - 1)) nx X" and "rect (ny + (ny - 1)) nx Y"
    and "i < ny \<Longrightarrow> j < nx \<Longrightarrow> X ! i ! j = xs ! j \<and> Y ! i ! j = ys ! i"
    and "i < ny - 1 \<Longrightarrow> j < nx
         \<Longrightarrow> X ! (ny + i) ! j = xs ! j \<and> Y ! (ny + i) ! j = - (ys ! (ny - 2 - i))"
    and "i < ny - 1 \<Longrightarrow> j < nx \<Longrightarrow> \<not> ind_sgd iwa bar (X ! (ny + i) ! j, Y ! (ny + i) ! j)
         \<Longrightarrow> cf ! (ny + i) ! j = f1 (cf ! (ny - 2 - i) ! j)"
    and "i < ny \<Longrightarrow> j < nx \<Longrightarrow> \<not> ind_sgd iwa bar (xs ! j, ys ! i) \<Longrightarrow> cf ! i ! j = G0 ! i ! j"
    and "r < ny + (ny - 1) \<Longrightarrow> c < nx \<Longrightarrow> ind_sgd iwa bar (X ! r ! c, Y ! r ! c)
         \<Longrightarrow> \<exists>cube. gen (X ! r ! c) (Y ! r ! c) = Inr cube \<and> is_shape3 ncf npix npix cube
               \<and> cf ! r ! c = cube_sub cube coeff0"
proof -
  have lG: "length G0 = ny" using G0 by (simp add: rect_def)
  have rowsG: "\<forall>r \<in> set G0. length r = nx" using G0 by (simp add: rect_def)
  have rX: "rect (ny + (ny - 1)) nx X"
    unfolding X rect_def using lx by (auto dest: in_set_butlastD)
  have rY: "rect (ny + (ny - 1)) nx Y"
    unfolding Y rect_def neg_grid_def using ly by (auto dest!: in_set_butlastD)
  have rS: "rect (ny + (ny - 1)) nx S"
    unfolding S rect_def quad_negy_def using lG rowsG by (auto dest: in_set_butlastD)
  show "rect (ny + (ny - 1)) nx X" by (rule rX)
  show "rect (ny + (ny - 1)) nx Y" by (rule rY)
  have c1: "X ! a ! b = xs ! b \<and> Y ! a ! b = ys ! a" if a: "a < ny" and b: "b < nx" for a b
    unfolding X Y using a b ly by (simp add: nth_append)
  have c2: "X ! (ny + a) ! b = xs ! b \<and> Y ! (ny + a) ! b = - (ys ! (ny - 2 - a))"
    if a: "a < ny - 1" and b: "b < nx" for a b
  proof -
    have k: "ny - 2 - a < ny" using a by simp
    have "X ! (ny + a) = butlast (replicate ny xs) ! a"
      unfolding X by (simp add: nth_append)
    then have x: "X ! (ny + a) ! b = xs ! b" using a by (simp add: nth_butlast)
    have "Y ! (ny + a) = neg_grid (rev (butlast (map (replicate nx) ys))) ! a"
      unfolding Y using ly by (simp add: nth_append)
    also have "\<dots> = map uminus (rev (butlast (map (replicate nx) ys)) ! a)"
      unfolding neg_grid_def using a ly by simp
    also have "rev (butlast (map (replicate nx) ys)) ! a = map (replicate nx) ys ! (ny - 2 - a)"
      using rev_butlast_nth [of a "map (replicate nx) ys"] a ly by simp
    finally have "Y ! (ny + a) ! b = - (ys ! (ny - 2 - a))" using k b ly by simp
    with x show ?thesis by simp
  qed
  show "X ! i ! j = xs ! j \<and> Y ! i ! j = ys ! i" if "i < ny" "j < nx" using c1 that by simp
  show "X ! (ny + i) ! j = xs ! j \<and> Y ! (ny + i) ! j = - (ys ! (ny - 2 - i))"
    if "i < ny - 1" "j < nx" using c2 that by simp
  note fin = sgd_pass_final [OF rX rY rS p]
  have first: "cf ! a ! b = G0 ! a ! b"
    if a: "a < ny" and b: "b < nx" and n: "\<not> ind_sgd iwa bar (xs ! b, ys ! a)" for a b
  proof -
    have "cf ! a ! b = S ! a ! b"
      using fin(1) [of a b] a b n c1 [OF a b] by simp
    then show ?thesis unfolding S using a lG by (simp add: nth_append)
  qed
  show "cf ! i ! j = G0 ! i ! j" if "i < ny" "j < nx" "\<not> ind_sgd iwa bar (xs ! j, ys ! i)"
    using first that by simp
  show "\<exists>cube. gen (X ! r ! c) (Y ! r ! c) = Inr cube \<and> is_shape3 ncf npix npix cube
               \<and> cf ! r ! c = cube_sub cube coeff0"
    if "r < ny + (ny - 1)" "c < nx" "ind_sgd iwa bar (X ! r ! c, Y ! r ! c)"
    using fin(2) that by simp
  {
    assume i: "i < ny - 1" and j: "j < nx"
      and n: "\<not> ind_sgd iwa bar (X ! (ny + i) ! j, Y ! (ny + i) ! j)"
    have k: "ny - 2 - i < ny" using i by simp
    have n': "\<not> ind_sgd iwa bar (xs ! j, ys ! (ny - 2 - i))"
      using n c2 [OF i j] by (simp add: ind_sgd_neg)
    have "cf ! (ny + i) ! j = S ! (ny + i) ! j"
      using fin(1) [of "ny + i" j] i j n by simp
    also have "\<dots> = quad_negy f1 G0 ! i ! j"
      unfolding S using lG by (simp add: nth_append)
    also have "\<dots> = f1 (G0 ! (ny - 2 - i) ! j)"
      using quad_negy_nth [OF G0 i, of f1] rect_nth [OF G0 k] j by simp
    also have "\<dots> = f1 (cf ! (ny - 2 - i) ! j)" using first [OF k j n'] by simp
    finally show "cf ! (ny + i) ! j = f1 (cf ! (ny - 2 - i) ! j)" .
  }
qed


lemma branch_instrument:
  assumes "wfemask_branch c large_grid = Inr b"
  shows "b = MiriQuad \<longleftrightarrow> name c = MIRI"
  using assms
  by (auto simp: wfemask_branch_def split: option.splits inst_name.splits if_splits)

lemma rotate_small_unrotated: "rotate_small nd_rotate 0 cf = cf"
  by (simp add: rotate_small_def rotate_offset_def)

lemma first_pass_grid:
  assumes fp: "first_pass gen sgd ncf npix (xy_list xs ys) = Inr (cfs, Some coeff0)"
  defines "G0 \<equiv> reshape2 (length ys) (length xs) (map (\<lambda>cf. cube_sub cf coeff0) cfs)"
  shows "rect (length ys) (length xs) G0"
    and "i < length ys \<Longrightarrow> j < length xs \<Longrightarrow> \<not> sgd (xs ! j, ys ! i)
         \<Longrightarrow> \<exists>cube. gen (xs ! j) (ys ! i) = Inr cube \<and> is_shape3 ncf npix npix cube
               \<and> G0 ! i ! j = cube_sub cube coeff0"
    and "gen 0 0 = Inr coeff0 \<and> is_shape3 ncf npix npix coeff0"
proof -
  note f = first_pass_nodes [OF fp]
  have len: "length (map (\<lambda>cf. cube_sub cf coeff0) cfs) = length ys * length xs"
    using f by (simp add: length_xy_list)
  show "rect (length ys) (length xs) G0" unfolding G0_def by (rule reshape2_rect [OF len])
  show "gen 0 0 = Inr coeff0 \<and> is_shape3 ncf npix npix coeff0" using f by simp
  {
    assume i: "i < length ys" and j: "j < length xs" and n: "\<not> sgd (xs ! j, ys ! i)"
    have k: "i * length xs + j < length (xy_list xs ys)"
    proof -
      have "i * length xs + j < i * length xs + length xs" using j by simp
      also have "\<dots> = Suc i * length xs" by simp
      also have "\<dots> \<le> length ys * length xs" using i by (intro mult_le_mono1) simp
      finally show ?thesis by (simp add: length_xy_list)
    qed
    have node: "xy_list xs ys ! (i * length xs + j) = (xs ! j, ys ! i)"
      by (rule xy_list_nth [OF i j])
    have g: "gen (xs ! j) (ys ! i) = Inr (cfs ! (i * length xs + j))
             \<and> is_shape3 ncf npix npix (cfs ! (i * length xs + j))"
      using f k n node by auto
    have "G0 ! i ! j = map (\<lambda>cf. cube_sub cf coeff0) cfs ! (i * length xs + j)"
      unfolding G0_def by (rule reshape2_nth [OF len i j])
    also have "\<dots> = cube_sub (cfs ! (i * length xs + j)) coeff0"
      using k f by simp
    finally show "\<exists>cube. gen (xs ! j) (ys ! i) = Inr cube \<and> is_shape3 ncf npix npix cube
               \<and> G0 ! i ! j = cube_sub cube coeff0"
      using g by blast
  }
qed


lemma quad_final_rect:
  assumes G0: "rect ny nx G0" and lx: "length xs = nx" and ly: "length ys = ny"
    and X: "X = stitch_xoff (replicate ny xs)" and Y: "Y = stitch_yoff (map (replicate nx) ys)"
    and S: "S = combine_quadrants G0 (quad_negy f1 G0) (quad_negx f2 G0) (quad_negxy f3 G0)"
    and p: "sgd_pass gen ncf npix coeff0 X Y S nodes = Inr cf"
  shows "rect (ny + (ny - 1)) (nx + (nx - 1)) cf"
proof -
  note sc = stitched_coords [OF lx ly, folded X Y]
  have rS: "rect (ny + (ny - 1)) (nx + (nx - 1)) S" unfolding S by (rule rect_combine [OF G0])
  show ?thesis using sgd_pass_nodes [OF sc(1) sc(2) rS p] by simp
qed

lemma half_final_rect:
  assumes G0: "rect ny nx G0" and lx: "length xs = nx" and ly: "length ys = ny"
    and X: "X = replicate ny xs @ butlast (replicate ny xs)"
    and Y: "Y = map (replicate nx) ys @ neg_grid (rev (butlast (map (replicate nx) ys)))"
    and S: "S = G0 @ quad_negy f1 G0"
    and p: "sgd_pass gen ncf npix coeff0 X Y S nodes = Inr cf"
  shows "rect (ny + (ny - 1)) nx cf"
proof -
  have lG: "length G0 = ny" using G0 by (simp add: rect_def)
  have rowsG: "\<forall>r \<in> set G0. length r = nx" using G0 by (simp add: rect_def)
  have rX: "rect (ny + (ny - 1)) nx X"
    unfolding X rect_def using lx by (auto dest: in_set_butlastD)
  have rY: "rect (ny + (ny - 1)) nx Y"
    unfolding Y rect_def neg_grid_def using ly by (auto dest!: in_set_butlastD)
  have rS: "rect (ny + (ny - 1)) nx S"
    unfolding S rect_def quad_negy_def using lG rowsG by (auto dest: in_set_butlastD)
  show ?thesis using sgd_pass_nodes [OF rX rY rS p] by simp
qed

lemma rect_rows: "rect R C g \<Longrightarrow> length g = R \<and> (\<forall>r < length g. length (g ! r) = C)"
  by (simp add: rect_def)

text \<open>
  Claim C3, as amended. Let the small grid of a MIRI mask or of a NIRCam round or bar
  mask be built from the \<open>ny\<close> by \<open>nx\<close> explicitly simulated offsets, for NIRCam with no
  frame rotation set. The returned grid has \<open>2 ny - 1\<close> rows of \<open>2 nx - 1\<close> nodes (of
  \<open>nx\<close> nodes for a bar mask). Row \<open>ny + i\<close> mirrors row \<open>ny - 2 - i\<close> in y and column
  \<open>nx + j\<close> mirrors column \<open>nx - 2 - j\<close> in x. A mirrored node outside the dither region
  holds the final residual of its counterpart transformed branch by branch: for MIRI the
  flip in y (in x) followed by the rotation by twice the frame rotation for the mirror in
  y (in x), and both flips without a rotation for the mirror through the centre; for a
  NIRCam round mask the unflipped residual for the mirror in y and the flip in x for the
  other two; for a NIRCam bar mask the flip in y.
\<close>

theorem symmetry_derived_nodes:
  assumes res: "gen_wfemask_coeff gen_psf_coeff nd_rotate c large_grid ncf npix
                = Inr (Some (cf, X, Y))"
    and off: "mask_offsets c large_grid = Inr (xs, ys, iwa, bar)"
    and br: "wfemask_branch c large_grid = Inr b"
    and small: "b = MiriQuad \<or> b = RoundSmall \<or> b = BarSmall"
    and nrc: "name c = NIRCam \<longrightarrow> rotation c = None"
    and ny: "ny = length ys" and nx: "nx = length xs"
  shows "length cf = ny + (ny - 1)
       \<and> (\<forall>r < length cf. length (cf ! r) = (if b = BarSmall then nx else nx + (nx - 1)))
       \<and> (\<forall>i j. i < ny \<and> j < nx \<longrightarrow> X ! i ! j = xs ! j \<and> Y ! i ! j = ys ! i)
       \<and> (\<forall>i j. i < ny - 1 \<and> j < nx \<longrightarrow>
             X ! (ny + i) ! j = xs ! j \<and> Y ! (ny + i) ! j = - (ys ! (ny - 2 - i))
             \<and> (\<not> ind_sgd iwa bar (X ! (ny + i) ! j, Y ! (ny + i) ! j) \<longrightarrow>
                  cf ! (ny + i) ! j
                  = sym_negy nd_rotate (field_rot2 c) b (cf ! (ny - 2 - i) ! j)))
       \<and> (b \<noteq> BarSmall \<longrightarrow>
            (\<forall>i j. i < ny \<and> j < nx - 1 \<longrightarrow>
               X ! i ! (nx + j) = - (xs ! (nx - 2 - j)) \<and> Y ! i ! (nx + j) = ys ! i
               \<and> (\<not> ind_sgd iwa bar (X ! i ! (nx + j), Y ! i ! (nx + j)) \<longrightarrow>
                    cf ! i ! (nx + j)
                    = sym_negx nd_rotate (field_rot2 c) b (cf ! i ! (nx - 2 - j))))
            \<and> (\<forall>i j. i < ny - 1 \<and> j < nx - 1 \<longrightarrow>
                 X ! (ny + i) ! (nx + j) = - (xs ! (nx - 2 - j))
                 \<and> Y ! (ny + i) ! (nx + j) = - (ys ! (ny - 2 - i))
                 \<and> (\<not> ind_sgd iwa bar (X ! (ny + i) ! (nx + j), Y ! (ny + i) ! (nx + j)) \<longrightarrow>
                      cf ! (ny + i) ! (nx + j)
                      = sym_negxy b (cf ! (ny - 2 - i) ! (nx - 2 - j)))))"
proof -
  from res obtain xs' ys' iwa' bar' b' cfs coeff0 S where
    off': "mask_offsets c large_grid = Inr (xs', ys', iwa', bar')"
    and br': "wfemask_branch c large_grid = Inr b'"
    and fp': "first_pass gen_psf_coeff (ind_sgd iwa' bar') ncf npix (xy_list xs' ys')
              = Inr (cfs, Some coeff0)"
    and st': "stitch nd_rotate c b' (replicate (length ys') xs') (map (replicate (length xs')) ys')
       (reshape2 (length ys') (length xs') (map (\<lambda>cf. cube_sub cf coeff0) cfs)) = (X, Y, S)"
    and sp': "sgd_pass gen_psf_coeff ncf npix coeff0 X Y S
       (filter (ind_sgd iwa' (branch_bar b')) (concat (map2 zip X Y))) = Inr cf"
    by (rule gen_wfemask_coeff_Inr)
  have eqs: "xs' = xs" "ys' = ys" "iwa' = iwa" "bar' = bar" "b' = b"
    using off off' br br' by simp_all
  define G0 where "G0 = reshape2 ny nx (map (\<lambda>cf. cube_sub cf coeff0) cfs)"
  have bb: "branch_bar b = bar" by (rule branch_bar_offsets [OF off br])
  have fp: "first_pass gen_psf_coeff (ind_sgd iwa bar) ncf npix (xy_list xs ys)
            = Inr (cfs, Some coeff0)"
    using fp' eqs by simp
  have st: "stitch nd_rotate c b (replicate ny xs) (map (replicate nx) ys) G0 = (X, Y, S)"
    using st' eqs ny nx by (simp add: G0_def)
  have sp: "sgd_pass gen_psf_coeff ncf npix coeff0 X Y S
       (filter (ind_sgd iwa bar) (concat (map2 zip X Y))) = Inr cf"
    using sp' eqs bb by simp
  have G0: "rect ny nx G0"
    unfolding G0_def ny nx by (rule first_pass_grid(1) [OF fp])
  have lx: "length xs = nx" and ly: "length ys = ny" using nx ny by simp_all
  have unrot: "b \<noteq> MiriQuad \<Longrightarrow> field_rot2 c = 0"
    using branch_instrument [OF br] nrc by (cases "name c") (simp_all add: field_rot2_def)
  show ?thesis
  proof (cases "b = BarSmall")
    case True
    have X: "X = replicate ny xs @ butlast (replicate ny xs)"
      and Y: "Y = map (replicate nx) ys @ neg_grid (rev (butlast (map (replicate nx) ys)))"
      and S: "S = G0 @ quad_negy (\<lambda>cf. flip_y cf) G0"
      using st True unrot by (simp_all add: stitch_def Let_def rotate_small_unrotated)
    note hf = half_final [OF G0 lx ly X Y S sp]
    note rc = rect_rows [OF half_final_rect [OF G0 lx ly X Y S sp]]
    have sy: "flip_y = sym_negy nd_rotate (field_rot2 c) b"
      using True by (simp add: sym_negy_def fun_eq_iff)
    have a: "length cf = ny + (ny - 1)" using rc by simp
    have b: "\<forall>r < length cf. length (cf ! r) = (if b = BarSmall then nx else nx + (nx - 1))"
      using rc True by simp
    have c1: "\<forall>i j. i < ny \<and> j < nx \<longrightarrow> X ! i ! j = xs ! j \<and> Y ! i ! j = ys ! i"
      using hf(3) by blast
    have c2: "\<forall>i j. i < ny - 1 \<and> j < nx \<longrightarrow>
             X ! (ny + i) ! j = xs ! j \<and> Y ! (ny + i) ! j = - (ys ! (ny - 2 - i))
             \<and> (\<not> ind_sgd iwa bar (X ! (ny + i) ! j, Y ! (ny + i) ! j) \<longrightarrow>
                  cf ! (ny + i) ! j = flip_y (cf ! (ny - 2 - i) ! j))"
      using hf(4) hf(5) by blast
    show ?thesis
      using a b c1 c2 [unfolded sy] True by blast
  next
    case False
    define f1 where "f1 = sym_negy nd_rotate (field_rot2 c) b"
    define f2 where "f2 = sym_negx nd_rotate (field_rot2 c) b"
    define f3 where "f3 = (sym_negxy b :: 'a cube \<Rightarrow> 'a cube)"
    have XYS: "X = stitch_xoff (replicate ny xs) \<and> Y = stitch_yoff (map (replicate nx) ys)
      \<and> S = combine_quadrants G0 (quad_negy f1 G0) (quad_negx f2 G0) (quad_negxy f3 G0)"
    proof (cases "b = MiriQuad")
      case True
      have "f1 = (\<lambda>cf. rotate_offset nd_rotate (field_rot2 c) (flip_y cf))"
        "f2 = (\<lambda>cf. rotate_offset nd_rotate (field_rot2 c) (flip_x cf))"
        "f3 = (\<lambda>cf. flip_x (flip_y cf))"
        using True by (simp_all add: f1_def f2_def f3_def sym_negy_def sym_negx_def sym_negxy_def
            fun_eq_iff)
      then show ?thesis using st True by (simp add: stitch_def Let_def)
    next
      case nm: False
      then have rs: "b = RoundSmall" using small False by simp
      have "f1 = (\<lambda>cf. cf)"
        "f2 = (\<lambda>cf. rotate_small nd_rotate (field_rot2 c) (flip_x cf))"
        "f3 = (\<lambda>cf. rotate_small nd_rotate (field_rot2 c) (flip_x cf))"
        using rs unrot [OF nm]
        by (simp_all add: f1_def f2_def f3_def sym_negy_def sym_negx_def sym_negxy_def
            fun_eq_iff rotate_small_unrotated)
      then show ?thesis using st rs by (simp add: stitch_def Let_def)
    qed
    then have X: "X = stitch_xoff (replicate ny xs)"
      and Y: "Y = stitch_yoff (map (replicate nx) ys)"
      and S: "S = combine_quadrants G0 (quad_negy f1 G0) (quad_negx f2 G0) (quad_negxy f3 G0)"
      by simp_all
    note sc = stitched_coords [OF lx ly, folded X Y]
    note qf = quad_final [OF G0 lx ly X Y S sp]
    note rc = rect_rows [OF quad_final_rect [OF G0 lx ly X Y S sp]]
    have a: "length cf = ny + (ny - 1)" using rc by simp
    have b: "\<forall>r < length cf. length (cf ! r) = (if b = BarSmall then nx else nx + (nx - 1))"
      using rc False by simp
    have c1: "\<forall>i j. i < ny \<and> j < nx \<longrightarrow> X ! i ! j = xs ! j \<and> Y ! i ! j = ys ! i"
      using sc(3) by blast
    have c2: "\<forall>i j. i < ny - 1 \<and> j < nx \<longrightarrow>
             X ! (ny + i) ! j = xs ! j \<and> Y ! (ny + i) ! j = - (ys ! (ny - 2 - i))
             \<and> (\<not> ind_sgd iwa bar (X ! (ny + i) ! j, Y ! (ny + i) ! j) \<longrightarrow>
                  cf ! (ny + i) ! j = f1 (cf ! (ny - 2 - i) ! j))"
      using sc(4) qf(1) by blast
    have c3: "\<forall>i j. i < ny \<and> j < nx - 1 \<longrightarrow>
               X ! i ! (nx + j) = - (xs ! (nx - 2 - j)) \<and> Y ! i ! (nx + j) = ys ! i
               \<and> (\<not> ind_sgd iwa bar (X ! i ! (nx + j), Y ! i ! (nx + j)) \<longrightarrow>
                    cf ! i ! (nx + j) = f2 (cf ! i ! (nx - 2 - j)))"
      using sc(5) qf(2) by blast
    have c4: "\<forall>i j. i < ny - 1 \<and> j < nx - 1 \<longrightarrow>
                 X ! (ny + i) ! (nx + j) = - (xs ! (nx - 2 - j))
                 \<and> Y ! (ny + i) ! (nx + j) = - (ys ! (ny - 2 - i))
                 \<and> (\<not> ind_sgd iwa bar (X ! (ny + i) ! (nx + j), Y ! (ny + i) ! (nx + j)) \<longrightarrow>
                      cf ! (ny + i) ! (nx + j) = f3 (cf ! (ny - 2 - i) ! (nx - 2 - j)))"
      using sc(6) qf(3) by blast
    show ?thesis
      using a b c1 c2 c3 c4 unfolding f1_def f2_def f3_def by blast
  qed
qed






subsection \<open>Residuals as differences\<close>

lemma ind_sgd_centre: "\<not> ind_sgd iwa bar (0, 0)"
  by (simp add: ind_sgd_def)



theorem symmetry_derived_nodes_witness:
  "\<exists>cf X Y.
     gen_wfemask_coeff demo_cube demo_rot demo_round False 1 2 = Inr (Some (cf, X, Y))
     \<and> mask_offsets demo_round False
         = Inr ([- 8, - (3 / 2), - (1 / 10), - (1 / 100), 0],
                [- 8, - (3 / 2), - (1 / 10), - (1 / 100), 0], 1 / 10, False)
     \<and> wfemask_branch demo_round False = Inr RoundSmall
     \<and> rotation demo_round = None
     \<and> length cf = 9 \<and> length (cf ! 5) = 9
     \<and> X ! 5 ! 0 = - 8 \<and> Y ! 5 ! 0 = 1 / 100 \<and> cf ! 5 ! 0 = cf ! 3 ! 0
     \<and> X ! 0 ! 5 = 1 / 100 \<and> Y ! 0 ! 5 = - 8 \<and> cf ! 0 ! 5 = flip_x (cf ! 0 ! 3)"
proof -
  have e: "gen_wfemask_coeff demo_cube demo_rot demo_round False 1 2
           = Inr (Some (the (projr (gen_wfemask_coeff demo_cube demo_rot demo_round False 1 2))))"
    by code_simp
  obtain cf X Y where
    r: "gen_wfemask_coeff demo_cube demo_rot demo_round False 1 2 = Inr (Some (cf, X, Y))"
    using e by (metis prod_cases3)
  have off: "mask_offsets demo_round False
         = Inr ([- 8, - (3 / 2), - (1 / 10), - (1 / 100), 0],
                [- 8, - (3 / 2), - (1 / 10), - (1 / 100), 0], 1 / 10, False)"
    by code_simp
  have br: "wfemask_branch demo_round False = Inr RoundSmall" by code_simp
  have rot: "rotation demo_round = None" by (simp add: demo_round_def demo_nircam_def)
  have small: "RoundSmall = MiriQuad \<or> RoundSmall = RoundSmall \<or> RoundSmall = BarSmall" by simp
  have nrc: "name demo_round = NIRCam \<longrightarrow> rotation demo_round = None" using rot by simp
  have ny: "(5::nat) = length [- 8, - (3 / 2), - (1 / 10), - (1 / 100), 0 :: rat]" by simp
  note t = symmetry_derived_nodes [OF r off br small nrc ny ny]
  have l: "length cf = 9" using t by simp
  have l5: "length (cf ! 5) = 9" using t l by simp
  have negy: "X ! (5 + 0) ! 0 = [- 8, - (3 / 2), - (1 / 10), - (1 / 100), 0 :: rat] ! 0
      \<and> Y ! (5 + 0) ! 0 = - ([- 8, - (3 / 2), - (1 / 10), - (1 / 100), 0 :: rat] ! (5 - 2 - 0))
      \<and> (\<not> ind_sgd (1 / 10) False (X ! (5 + 0) ! 0, Y ! (5 + 0) ! 0) \<longrightarrow>
            cf ! (5 + 0) ! 0
            = sym_negy demo_rot (field_rot2 demo_round) RoundSmall (cf ! (5 - 2 - 0) ! 0))"
    using t [THEN conjunct2, THEN conjunct2, THEN conjunct2, THEN conjunct1, THEN spec,
        THEN spec, of 0 0] by simp
  have negx: "X ! 0 ! (5 + 0) = - ([- 8, - (3 / 2), - (1 / 10), - (1 / 100), 0 :: rat] ! (5 - 2 - 0))
      \<and> Y ! 0 ! (5 + 0) = [- 8, - (3 / 2), - (1 / 10), - (1 / 100), 0 :: rat] ! 0
      \<and> (\<not> ind_sgd (1 / 10) False (X ! 0 ! (5 + 0), Y ! 0 ! (5 + 0)) \<longrightarrow>
            cf ! 0 ! (5 + 0)
            = sym_negx demo_rot (field_rot2 demo_round) RoundSmall (cf ! 0 ! (5 - 2 - 0)))"
    using t [THEN conjunct2, THEN conjunct2, THEN conjunct2, THEN conjunct2, THEN mp,
        THEN conjunct1, THEN spec, THEN spec, of 0 0] by simp
  have x5: "X ! 5 ! 0 = - 8" and y5: "Y ! 5 ! 0 = 1 / 100" using negy by simp_all
  have x05: "X ! 0 ! 5 = 1 / 100" and y05: "Y ! 0 ! 5 = - 8" using negx by simp_all
  have c5: "cf ! 5 ! 0 = cf ! 3 ! 0"
    using negy x5 y5 by (simp add: ind_sgd_def sym_negy_def)
  have c05: "cf ! 0 ! 5 = flip_x (cf ! 0 ! 3)"
    using negx x05 y05 by (simp add: ind_sgd_def sym_negx_def)
  show ?thesis
    using r off br rot l l5 x5 y5 c5 x05 y05 c05 by blast
qed

text \<open>
  Claim C3 as stated fails for the small grid of a NIRCam round mask: the node at
  \<open>(-8, 0.01)\<close>, mirrored in y from the node at \<open>(-8, -0.01)\<close>, holds the residual of its
  counterpart as it is, which differs from that residual flipped in y, in x and in both.
\<close>

theorem symmetry_unflipped_counterexample:
  "map_sum id
     (map_option (\<lambda>(cf, X, Y).
        (X ! 5 ! 0, Y ! 5 ! 0, X ! 3 ! 0, Y ! 3 ! 0, cf ! 3 ! 0,
         cf ! 5 ! 0 = cf ! 3 ! 0, cf ! 5 ! 0 = flip_y (cf ! 3 ! 0),
         cf ! 5 ! 0 = flip_x (cf ! 3 ! 0), cf ! 5 ! 0 = flip_x (flip_y (cf ! 3 ! 0)))))
     (gen_wfemask_coeff demo_cube demo_rot demo_round False 1 2)
   = Inr (Some (- 8, 1 / 100, - 8, - (1 / 100), [[[- 8, - (1 / 100)], [2 / 25, 0]]],
                True, False, False, False))
   \<and> wfemask_branch demo_round False = Inr RoundSmall"
  by code_simp



subsection \<open>Name of the coefficient file\<close>




















end
